theory Spec2Isabelle
  imports Main "HOL-Library.Word"
begin

unbundle bit_operations_syntax

section \<open>JavaScript values\<close>

text \<open>
  The values that travel through the IPC server (\<^verbatim>\<open>ipc-server.ts\<close>) are the values
  \<^verbatim>\<open>JSON.parse\<close> produces, plus \<^verbatim>\<open>undefined\<close> for a property that is absent.
  TypeScript's \<^verbatim>\<open>as string\<close> casts are not checked at run time, so a field read from
  a request is kept as the value it is. An object is the list of its properties. A number
  is an integer from \<open>-2\<^sup>5\<^sup>3\<close> to \<open>2\<^sup>5\<^sup>3 - 1\<close>, a signed word of 54 bits: these are
  the numbers that \<^verbatim>\<open>JSON.parse\<close> returns as they are written and that \<^verbatim>\<open>String\<close> prints in
  decimal digits. Fractions and larger numbers are not values of the model.
\<close>

type_synonym number = "54 word"

datatype jsval =
    JUndefined
  | JNull
  | JBool bool
  | JNum number
  | JStr string
  | JArr "jsval list"
  | JObj "(string \<times> jsval) list"

text \<open>What a \<^verbatim>\<open>throw\<close> carries: an \<^verbatim>\<open>Error\<close> object with its message, or any
  other value (kept as the text \<^verbatim>\<open>String(e)\<close> gives).\<close>

datatype thrown = Error string | NonError string

definition digit_char :: "nat \<Rightarrow> char" where
  "digit_char d = ''0123456789'' ! (d mod 10)"

function digits :: "nat \<Rightarrow> string" where
  "digits n = (if n < 10 then [digit_char n] else digits (n div 10) @ [digit_char (n mod 10)])"
  by pat_completeness auto
termination
  by (relation "measure (\<lambda>n. n)") auto

declare digits.simps [simp del]

definition int_string :: "int \<Rightarrow> string" where
  "int_string i = (if i < 0 then CHR ''-'' # digits (nat (- i)) else digits (nat i))"

text \<open>
  \<^verbatim>\<open>String(v)\<close>, the conversion a template literal applies. An array is joined with
  commas, \<^verbatim>\<open>null\<close> and \<^verbatim>\<open>undefined\<close> elements giving the empty text. An object is
  converted by its \<^verbatim>\<open>toString\<close>: the one of \<^verbatim>\<open>Object.prototype\<close> gives
  \<^verbatim>\<open>[object Object]\<close>; an own property \<^verbatim>\<open>toString\<close> hides it, is not a function (no
  value of \<^verbatim>\<open>JSON.parse\<close> is), and leaves \<^verbatim>\<open>valueOf\<close>, which does not give a primitive:
  the conversion throws a TypeError. An own property \<^verbatim>\<open>valueOf\<close> alone changes nothing,
  \<^verbatim>\<open>toString\<close> being asked first.
\<close>

fun js_string :: "jsval \<Rightarrow> thrown + string" and js_join :: "jsval list \<Rightarrow> thrown + string" where
  "js_string JUndefined = Inr ''undefined''"
| "js_string JNull = Inr ''null''"
| "js_string (JBool b) = Inr (if b then ''true'' else ''false'')"
| "js_string (JNum i) = Inr (int_string (sint i))"
| "js_string (JStr s) = Inr s"
| "js_string (JArr xs) = js_join xs"
| "js_string (JObj kvs) =
     (if ''toString'' \<in> set (map fst kvs)
      then Inl (Error ''Cannot convert object to primitive value'')
      else Inr ''[object Object]'')"
| "js_join [] = Inr []"
| "js_join (x # xs) =
     (case (if x = JUndefined \<or> x = JNull then Inr [] else js_string x) of
        Inl e \<Rightarrow> Inl e
      | Inr t \<Rightarrow>
         (if xs = [] then Inr t
          else (case js_join xs of
                  Inl e \<Rightarrow> Inl e
                | Inr r \<Rightarrow> Inr (t @ '','' @ r))))"

text \<open>\<^verbatim>\<open>!v\<close> is \<open>\<not> truthy v\<close>.\<close>

fun truthy :: "jsval \<Rightarrow> bool" where
  "truthy JUndefined = False"
| "truthy JNull = False"
| "truthy (JBool b) = b"
| "truthy (JNum i) = (i \<noteq> 0)"
| "truthy (JStr s) = (s \<noteq> [])"
| "truthy (JArr xs) = True"
| "truthy (JObj kvs) = True"

definition quoted :: "string \<Rightarrow> string" where
  "quoted k = CHR 0x27 # k @ [CHR 0x27]"

text \<open>
  \<^verbatim>\<open>v.k\<close>: reading a property of \<^verbatim>\<open>undefined\<close> or \<^verbatim>\<open>null\<close> throws a TypeError; an
  object gives the property or \<^verbatim>\<open>undefined\<close>. The server reads only names
  (\<^verbatim>\<open>id\<close>, \<^verbatim>\<open>method\<close>, \<^verbatim>\<open>params\<close>, \<^verbatim>\<open>tool\<close>, \<^verbatim>\<open>arguments\<close>, \<^verbatim>\<open>taskId\<close>, \<^verbatim>\<open>fqbn\<close>, \<^verbatim>\<open>port\<close>,
  \<^verbatim>\<open>buildPath\<close>, ...) that no string, number, boolean or array has, so every other
  value gives \<^verbatim>\<open>undefined\<close>.
\<close>

fun get_prop :: "jsval \<Rightarrow> string \<Rightarrow> thrown + jsval" where
  "get_prop JUndefined k =
     Inl (Error (''Cannot read properties of undefined (reading '' @ quoted k @ '')''))"
| "get_prop JNull k =
     Inl (Error (''Cannot read properties of null (reading '' @ quoted k @ '')''))"
| "get_prop (JObj kvs) k = Inr (case map_of kvs k of None \<Rightarrow> JUndefined | Some v \<Rightarrow> v)"
| "get_prop v k = Inr JUndefined"

text \<open>\<^verbatim>\<open>v?.k\<close>\<close>

fun opt_prop :: "jsval \<Rightarrow> string \<Rightarrow> jsval" where
  "opt_prop (JObj kvs) k = (case map_of kvs k of None \<Rightarrow> JUndefined | Some v \<Rightarrow> v)"
| "opt_prop v k = JUndefined"

text \<open>\<^verbatim>\<open>e instanceof Error ? e.message : 'Unknown error'\<close>\<close>

fun errMessage :: "thrown \<Rightarrow> string" where
  "errMessage (Error m) = m"
| "errMessage (NonError v) = ''Unknown error''"

text \<open>\<^verbatim>\<open>${e instanceof Error ? e.message : e}\<close>\<close>

fun thrown_text :: "thrown \<Rightarrow> string" where
  "thrown_text (Error m) = m"
| "thrown_text (NonError v) = v"

section \<open>The protocol's data (ipc-protocol.ts)\<close>

datatype TaskStatus = pending | running | completed | failed | cancelled

fun status_string :: "TaskStatus \<Rightarrow> string" where
  "status_string pending = ''pending''"
| "status_string running = ''running''"
| "status_string completed = ''completed''"
| "status_string failed = ''failed''"
| "status_string cancelled = ''cancelled''"

text \<open>
  \<^verbatim>\<open>interface Task\<close>. \<^verbatim>\<open>tool\<close> and \<^verbatim>\<open>arguments\<close> hold what the request carried
  (the casts in \<^verbatim>\<open>task/create\<close> check nothing); an optional field that is unset is
  \<open>JUndefined\<close> or \<open>None\<close>.
\<close>

record Task =
  id_task :: string
  status :: TaskStatus
  tool :: jsval
  arguments :: jsval
  result :: jsval
  error :: "string option"
  progress :: "number option"
  progressMessage :: "string option"

record IPCEvent =
  event :: string
  data :: jsval

record ErrorObj =
  code :: int
  message :: string

text \<open>\<^verbatim>\<open>interface IPCResponse\<close>: \<^verbatim>\<open>result\<close> is \<open>JUndefined\<close> and \<^verbatim>\<open>error\<close> is \<open>None\<close>
  when the property is absent.\<close>

record IPCResponse =
  id_rsp :: jsval
  result_rsp :: jsval
  error_rsp :: "ErrorObj option"

text \<open>A line written to a socket: \<^verbatim>\<open>JSON.stringify(x) + '\n'\<close> for an event or a
  response \<open>x\<close>.\<close>

datatype wire = EventLine IPCEvent | ResponseLine IPCResponse

record Sketch =
  name :: string
  uri :: string
  mainFileUri :: string
  otherSketchFileUris :: "string list"
  additionalFileUris :: "string list"
  rootFolderFileUris :: "string list"

section \<open>The server's state\<close>

text \<open>A \<^verbatim>\<open>net.Socket\<close> is known by its identity.\<close>

type_synonym socket = nat

text \<open>Which operation a suspended \<^verbatim>\<open>runTask\<close> is awaiting.\<close>

datatype awaited = AwaitCompile | AwaitUpload

text \<open>
  The fields of \<^verbatim>\<open>class ArduinoIPCServer\<close>, and below them what the class acts on
  through Node: the queue of \<^verbatim>\<open>setImmediate\<close> callbacks (each is \<^verbatim>\<open>runTask(taskId)\<close>),
  the \<^verbatim>\<open>runTask\<close> executions suspended at their \<^verbatim>\<open>await\<close>, the lines written to each
  socket, the sockets whose \<^verbatim>\<open>write\<close> throws, the sockets that are broken, and the lines of
  \<^verbatim>\<open>console.error\<close> (without the value logged after the text). \<^verbatim>\<open>clients\<close> is a \<^verbatim>\<open>Set\<close>,
  iterated in insertion order: a list without duplicates.

  A write to a socket can fail in two ways. A \<^verbatim>\<open>net.Socket\<close> whose peer is gone (a broken
  pipe) takes the line and returns; the failure comes back later as the \<^verbatim>\<open>error\<close> event of
  the socket, followed by its \<^verbatim>\<open>close\<close> event: these are the sockets of \<open>broken\<close>. The
  code also catches a \<^verbatim>\<open>write\<close> that throws: these are the sockets of \<open>write_throws\<close>, of
  which a \<^verbatim>\<open>net.Server\<close> hands out none.
\<close>

record ArduinoIPCServer =
  clients :: "socket list"
  tasks :: "string \<rightharpoonup> Task"
  taskCounter :: nat
  lastBuildOutput :: "(string \<times> string) option"
  currentSketch :: "Sketch option"
  coreService :: bool
  libraryService :: bool
  immediates :: "string list"
  suspended :: "(string \<times> awaited) list"
  written :: "socket \<Rightarrow> wire list"
  write_throws :: "socket \<Rightarrow> bool"
  broken :: "socket \<Rightarrow> bool"
  console :: "string list"

section \<open>Event emission\<close>

text \<open>\<^verbatim>\<open>client.write(message)\<close>\<close>

definition socket_write :: "socket \<Rightarrow> wire \<Rightarrow> ArduinoIPCServer \<Rightarrow> thrown + ArduinoIPCServer" where
  "socket_write c m s =
     (if write_throws s c then Inl (Error ''write failed'')
      else Inr (s\<lparr>written := (written s)(c := written s c @ [m])\<rparr>))"

text \<open>The loop of \<^verbatim>\<open>broadcast\<close> over \<^verbatim>\<open>this.clients\<close>.\<close>

fun broadcast_loop :: "wire \<Rightarrow> socket list \<Rightarrow> ArduinoIPCServer \<Rightarrow> ArduinoIPCServer" where
  "broadcast_loop m [] s = s"
| "broadcast_loop m (c # cs) s =
     (case socket_write c m s of
        Inr s' \<Rightarrow> broadcast_loop m cs s'
      | Inl e \<Rightarrow>
          broadcast_loop m cs (s\<lparr>console := console s @ [''[arduino-mcp] Failed to send event:'']\<rparr>))"

definition broadcast :: "IPCEvent \<Rightarrow> ArduinoIPCServer \<Rightarrow> ArduinoIPCServer" where
  "broadcast ev s = (let message = EventLine ev in broadcast_loop message (clients s) s)"

definition emitProgress :: "string \<Rightarrow> number \<Rightarrow> string \<Rightarrow> ArduinoIPCServer \<Rightarrow> ArduinoIPCServer" where
  "emitProgress taskId p msg s =
     broadcast \<lparr>event = ''task/progress'',
                data = JObj [(''taskId'', JStr taskId), (''progress'', JNum p),
                             (''total'', JNum 100), (''message'', JStr msg)]\<rparr> s"

definition emitRootsChanged :: "ArduinoIPCServer \<Rightarrow> ArduinoIPCServer" where
  "emitRootsChanged s = broadcast \<lparr>event = ''roots/changed'', data = JObj []\<rparr> s"

text \<open>\<^verbatim>\<open>this.currentSketch?.uri !== sketch?.uri\<close>: the uri of \<^verbatim>\<open>null\<close> is \<^verbatim>\<open>undefined\<close>.\<close>

definition setCurrentSketch :: "Sketch option \<Rightarrow> ArduinoIPCServer \<Rightarrow> ArduinoIPCServer" where
  "setCurrentSketch sketch s =
     (let changed = (map_option uri (currentSketch s) \<noteq> map_option uri sketch);
          s1 = s\<lparr>currentSketch := sketch\<rparr>
      in if changed then emitRootsChanged s1 else s1)"

definition setBuildOutput :: "string \<Rightarrow> string \<Rightarrow> ArduinoIPCServer \<Rightarrow> ArduinoIPCServer" where
  "setBuildOutput out err s = s\<lparr>lastBuildOutput := Some (out, err)\<rparr>"

section \<open>Task handlers\<close>

text \<open>\<^verbatim>\<open>this.tasks.get(taskId)\<close>: the keys of the table are strings, so any other
  value finds nothing.\<close>

fun tasks_get :: "ArduinoIPCServer \<Rightarrow> jsval \<Rightarrow> Task option" where
  "tasks_get s (JStr k) = tasks s k"
| "tasks_get s v = None"

text \<open>The key under which \<^verbatim>\<open>this.tasks.get(taskId)\<close> found a task: the string \<open>taskId\<close>.\<close>

fun key_of :: "jsval \<Rightarrow> string" where
  "key_of (JStr k) = k"
| "key_of v = []"

definition opt_str :: "string option \<Rightarrow> jsval" where
  "opt_str x = (case x of None \<Rightarrow> JUndefined | Some v \<Rightarrow> JStr v)"

definition opt_num :: "number option \<Rightarrow> jsval" where
  "opt_num x = (case x of None \<Rightarrow> JUndefined | Some v \<Rightarrow> JNum v)"

text \<open>The object \<^verbatim>\<open>task/get\<close> returns.\<close>

definition snapshot :: "Task \<Rightarrow> jsval" where
  "snapshot t =
     JObj [(''status'', JStr (status_string (status t))), (''result'', result t),
           (''error'', opt_str (error t)), (''progress'', opt_num (progress t)),
           (''progressMessage'', opt_str (progressMessage t))]"

text \<open>The template literal \<^verbatim>\<open>`task_${n}_${now}`\<close>.\<close>

definition task_key :: "nat \<Rightarrow> nat \<Rightarrow> string" where
  "task_key n now = ''task_'' @ digits n @ ''_'' @ digits now"

text \<open>
  \<^verbatim>\<open>handleTask(method, params)\<close>; \<open>now\<close> is what \<^verbatim>\<open>Date.now()\<close> returns.
  \<^verbatim>\<open>setImmediate(() => this.runTask(taskId))\<close> appends to the queue of immediates.
  \<^verbatim>\<open>task/cancel\<close> assigns to the task object it found, which is the one stored under
  the string \<open>taskId\<close>.
\<close>

definition handleTask ::
  "nat \<Rightarrow> string \<Rightarrow> jsval \<Rightarrow> ArduinoIPCServer \<Rightarrow> (thrown + jsval) \<times> ArduinoIPCServer" where
  "handleTask now method params s =
    (if method = ''task/create'' then
       (let n = taskCounter s + 1;
            s1 = s\<lparr>taskCounter := n\<rparr>;
            taskId = task_key n now
        in case get_prop params ''tool'' of
             Inl e \<Rightarrow> (Inl e, s1)
           | Inr tool_v \<Rightarrow>
              (case get_prop params ''arguments'' of
                 Inl e \<Rightarrow> (Inl e, s1)
               | Inr args \<Rightarrow>
                  (let task = \<lparr>id_task = taskId, status = pending, tool = tool_v, arguments = args,
                               result = JUndefined, error = None, progress = None,
                               progressMessage = None\<rparr>;
                       s2 = s1\<lparr>tasks := (tasks s1)(taskId \<mapsto> task)\<rparr>;
                       s3 = s2\<lparr>immediates := immediates s2 @ [taskId]\<rparr>
                   in (Inr (JObj [(''taskId'', JStr taskId)]), s3))))
     else if method = ''task/get'' then
       (case get_prop params ''taskId'' of
          Inl e \<Rightarrow> (Inl e, s)
        | Inr taskId \<Rightarrow>
           (case tasks_get s taskId of
              None \<Rightarrow>
                (case js_string taskId of
                   Inl e \<Rightarrow> (Inl e, s)
                 | Inr text \<Rightarrow> (Inl (Error (''Task not found: '' @ text)), s))
            | Some task \<Rightarrow> (Inr (snapshot task), s)))
     else if method = ''task/cancel'' then
       (case get_prop params ''taskId'' of
          Inl e \<Rightarrow> (Inl e, s)
        | Inr taskId \<Rightarrow>
           (case tasks_get s taskId of
              Some task \<Rightarrow>
                (if status task = pending \<or> status task = running then
                   (Inr (JObj [(''cancelled'', JBool True)]),
                    s\<lparr>tasks := (tasks s)(key_of taskId \<mapsto>
                                  task\<lparr>status := cancelled, error := Some ''Cancelled by user''\<rparr>)\<rparr>)
                 else (Inr (JObj [(''cancelled'', JBool False)]), s))
            | None \<Rightarrow> (Inr (JObj [(''cancelled'', JBool False)]), s)))
     else (Inl (Error (''Unknown task method: '' @ method)), s))"


section \<open>Task execution\<close>

text \<open>How the promise a suspended \<^verbatim>\<open>runTask\<close> awaits is settled.\<close>

datatype outcome = Resolved jsval | Rejected thrown

text \<open>An assignment to a field of the task object that \<^verbatim>\<open>runTask\<close> holds: the object
  stored in the table under \<open>taskId\<close> (no entry of the table is ever removed, and
  \<^verbatim>\<open>task/create\<close> stores under a key that is not in use).\<close>

definition task_assign :: "string \<Rightarrow> (Task \<Rightarrow> Task) \<Rightarrow> ArduinoIPCServer \<Rightarrow> ArduinoIPCServer" where
  "task_assign taskId f s =
     (case tasks s taskId of None \<Rightarrow> s | Some t \<Rightarrow> s\<lparr>tasks := (tasks s)(taskId \<mapsto> f t)\<rparr>)"

text \<open>\<^verbatim>\<open>runCompileTask\<close> up to its \<^verbatim>\<open>await\<close>: \<open>Inl\<close> is a throw, \<open>Inr ()\<close> the suspension at
  \<^verbatim>\<open>await this.coreService.compile(...)\<close>. An absent \<^verbatim>\<open>coreService\<close> is a TypeError inside
  the \<^verbatim>\<open>try\<close>, rethrown as a compilation failure.\<close>

definition runCompileTask ::
  "Task \<Rightarrow> string \<Rightarrow> ArduinoIPCServer \<Rightarrow> (thrown + unit) \<times> ArduinoIPCServer" where
  "runCompileTask task taskId s =
     (let s1 = emitProgress taskId 10 ''Preparing compilation...'' s
      in if currentSketch s1 = None then (Inl (Error ''No sketch is currently open''), s1)
         else case get_prop (arguments task) ''fqbn'' of
                Inl e \<Rightarrow> (Inl e, s1)
              | Inr fqbn \<Rightarrow>
                 if \<not> truthy fqbn then (Inl (Error ''No board selected (fqbn required)''), s1)
                 else (let s2 = emitProgress taskId 20 ''Compiling...'' s1
                       in if coreService s2 then (Inr (), s2)
                          else (Inl (Error (''Compilation failed: '' @
                                  ''Cannot read properties of undefined (reading '' @
                                  quoted ''compile'' @ '')'')), s2)))"

text \<open>\<^verbatim>\<open>runCompileTask\<close> from its \<^verbatim>\<open>await\<close> on.\<close>

definition runCompileTask_resume ::
  "string \<Rightarrow> outcome \<Rightarrow> ArduinoIPCServer \<Rightarrow> (thrown + unit) \<times> ArduinoIPCServer" where
  "runCompileTask_resume taskId out s =
     (case out of
        Resolved r \<Rightarrow>
          (let s1 = task_assign taskId (\<lambda>t. t\<lparr>result :=
                      JObj [(''success'', JBool True), (''buildPath'', opt_prop r ''buildPath''),
                            (''executableSectionsSize'', opt_prop r ''executableSectionsSize'')]\<rparr>) s;
               s2 = task_assign taskId (\<lambda>t. t\<lparr>status := completed\<rparr>) s1
           in (Inr (), emitProgress taskId 100 ''Compilation complete'' s2))
      | Rejected e \<Rightarrow> (Inl (Error (''Compilation failed: '' @ thrown_text e)), s))"

definition runUploadTask ::
  "Task \<Rightarrow> string \<Rightarrow> ArduinoIPCServer \<Rightarrow> (thrown + unit) \<times> ArduinoIPCServer" where
  "runUploadTask task taskId s =
     (let s1 = emitProgress taskId 10 ''Preparing upload...'' s
      in if currentSketch s1 = None then (Inl (Error ''No sketch is currently open''), s1)
         else case get_prop (arguments task) ''fqbn'' of
                Inl e \<Rightarrow> (Inl e, s1)
              | Inr fqbn \<Rightarrow>
                 if \<not> truthy fqbn then (Inl (Error ''No board selected (fqbn required)''), s1)
                 else if \<not> truthy (opt_prop (arguments task) ''port'')
                 then (Inl (Error ''No port specified''), s1)
                 else (let s2 = emitProgress taskId 20 ''Compiling...'' s1;
                           s3 = emitProgress taskId 50 ''Uploading to board...'' s2
                       in if coreService s3 then (Inr (), s3)
                          else (Inl (Error (''Upload failed: '' @
                                  ''Cannot read properties of undefined (reading '' @
                                  quoted ''upload'' @ '')'')), s3)))"

text \<open>\<^verbatim>\<open>runUploadTask\<close> from its \<^verbatim>\<open>await\<close> on: \<^verbatim>\<open>result.portAfterUpload\<close> is read without
  \<^verbatim>\<open>?.\<close>, inside the \<^verbatim>\<open>try\<close>.\<close>

definition runUploadTask_resume ::
  "string \<Rightarrow> outcome \<Rightarrow> ArduinoIPCServer \<Rightarrow> (thrown + unit) \<times> ArduinoIPCServer" where
  "runUploadTask_resume taskId out s =
     (case out of
        Resolved r \<Rightarrow>
          (case get_prop r ''portAfterUpload'' of
             Inl e \<Rightarrow> (Inl (Error (''Upload failed: '' @ thrown_text e)), s)
           | Inr p \<Rightarrow>
              (let s1 = task_assign taskId (\<lambda>t. t\<lparr>result :=
                          JObj [(''success'', JBool True), (''portAfterUpload'', p)]\<rparr>) s;
                   s2 = task_assign taskId (\<lambda>t. t\<lparr>status := completed\<rparr>) s1
               in (Inr (), emitProgress taskId 100 ''Upload complete'' s2)))
      | Rejected e \<Rightarrow> (Inl (Error (''Upload failed: '' @ thrown_text e)), s))"

text \<open>The \<^verbatim>\<open>catch\<close> of \<^verbatim>\<open>runTask\<close>.\<close>

definition runTask_catch :: "string \<Rightarrow> thrown \<Rightarrow> ArduinoIPCServer \<Rightarrow> ArduinoIPCServer" where
  "runTask_catch taskId e s =
     task_assign taskId (\<lambda>t. t\<lparr>error := Some (errMessage e)\<rparr>)
       (task_assign taskId (\<lambda>t. t\<lparr>status := failed\<rparr>) s)"

text \<open>\<^verbatim>\<open>runTask(taskId)\<close> from its start to its end or to the \<^verbatim>\<open>await\<close> where it is
  suspended.\<close>

definition runTask :: "string \<Rightarrow> ArduinoIPCServer \<Rightarrow> ArduinoIPCServer" where
  "runTask taskId s =
     (case tasks s taskId of
        None \<Rightarrow> s
      | Some task \<Rightarrow>
         (let s1 = task_assign taskId (\<lambda>t. t\<lparr>status := running\<rparr>) s;
              s2 = emitProgress taskId 0 ''Starting...'' s1
          in if tool task = JStr ''arduino_compile'' then
               (case runCompileTask task taskId s2 of
                  (Inl e, s3) \<Rightarrow> runTask_catch taskId e s3
                | (Inr u, s3) \<Rightarrow> s3\<lparr>suspended := suspended s3 @ [(taskId, AwaitCompile)]\<rparr>)
             else if tool task = JStr ''arduino_upload'' then
               (case runUploadTask task taskId s2 of
                  (Inl e, s3) \<Rightarrow> runTask_catch taskId e s3
                | (Inr u, s3) \<Rightarrow> s3\<lparr>suspended := suspended s3 @ [(taskId, AwaitUpload)]\<rparr>)
             else runTask_catch taskId
                    (case js_string (tool task) of
                       Inl e \<Rightarrow> e
                     | Inr text \<Rightarrow> Error (''Task not supported for tool: '' @ text)) s2))"

text \<open>The rest of a suspended \<^verbatim>\<open>runTask\<close>, once its promise is settled.\<close>

definition runTask_resume :: "string \<Rightarrow> awaited \<Rightarrow> outcome \<Rightarrow> ArduinoIPCServer \<Rightarrow> ArduinoIPCServer" where
  "runTask_resume taskId a out s =
     (case (case a of AwaitCompile \<Rightarrow> runCompileTask_resume taskId out s
                    | AwaitUpload \<Rightarrow> runUploadTask_resume taskId out s) of
        (Inl e, s1) \<Rightarrow> runTask_catch taskId e s1
      | (Inr u, s1) \<Rightarrow> s1)"

text \<open>
  What can happen to the task table, one event at a time (Node runs each callback to its
  next suspension before the next one starts): a request handled by \<^verbatim>\<open>handleTask\<close>, the
  oldest \<^verbatim>\<open>setImmediate\<close> callback, or the settling of the promise that the suspended
  \<^verbatim>\<open>runTask\<close> of a task awaits.
\<close>

datatype action =
    Request nat string jsval
  | Immediate
  | Settle string outcome

fun step :: "action \<Rightarrow> ArduinoIPCServer \<Rightarrow> ArduinoIPCServer" where
  "step (Request now method params) s = snd (handleTask now method params s)"
| "step Immediate s =
     (case immediates s of
        [] \<Rightarrow> s
      | taskId # rest \<Rightarrow> runTask taskId (s\<lparr>immediates := rest\<rparr>))"
| "step (Settle taskId out) s =
     (case map_of (suspended s) taskId of
        None \<Rightarrow> s
      | Some a \<Rightarrow>
          runTask_resume taskId a out
            (s\<lparr>suspended := filter (\<lambda>p. fst p \<noteq> taskId) (suspended s)\<rparr>))"

fun steps :: "action list \<Rightarrow> ArduinoIPCServer \<Rightarrow> ArduinoIPCServer" where
  "steps [] s = s"
| "steps (a # as) s = steps as (step a s)"

text \<open>The server as its constructor leaves it; the two flags say which IDE services the
  container injected.\<close>

definition new_server :: "bool \<Rightarrow> bool \<Rightarrow> ArduinoIPCServer" where
  "new_server core lib =
     \<lparr>clients = [], tasks = Map.empty, taskCounter = 0, lastBuildOutput = None,
      currentSketch = None, coreService = core, libraryService = lib, immediates = [],
      suspended = [], written = (\<lambda>c. []), write_throws = (\<lambda>c. False),
      broken = (\<lambda>c. False), console = []\<rparr>"


section \<open>Routing\<close>

text \<open>\<^verbatim>\<open>s.startsWith(p)\<close>\<close>

definition startsWith :: "string \<Rightarrow> string \<Rightarrow> bool" where
  "startsWith s p = (take (length p) s = p)"

text \<open>
  Most \<^verbatim>\<open>case\<close> branches of \<^verbatim>\<open>handleContext\<close>, \<^verbatim>\<open>handleSketch\<close>, \<^verbatim>\<open>handleBuild\<close>,
  \<^verbatim>\<open>handleBoard\<close>, \<^verbatim>\<open>handleSerial\<close> and \<^verbatim>\<open>handleLibrary\<close> work through the IDE services
  and the file system, which are not part of this code. The bodies of those branches are
  a parameter: given the method, the params and the server, a body returns a value or
  throws; the bodies of \<^verbatim>\<open>sketch/open\<close> and \<^verbatim>\<open>sketch/fromExample\<close> may also call
  \<^verbatim>\<open>setCurrentSketch\<close>, with the sketch given as second component. The branches that
  use the server's own fields only are written out.
\<close>

type_synonym ide = "string \<Rightarrow> jsval \<Rightarrow> ArduinoIPCServer \<Rightarrow> (thrown + jsval) \<times> Sketch option option"

definition body :: "ide \<Rightarrow> string \<Rightarrow> jsval \<Rightarrow> ArduinoIPCServer \<Rightarrow> (thrown + jsval) \<times> ArduinoIPCServer" where
  "body ide method params s = (fst (ide method params s), s)"

definition body_opening :: "ide \<Rightarrow> string \<Rightarrow> jsval \<Rightarrow> ArduinoIPCServer \<Rightarrow> (thrown + jsval) \<times> ArduinoIPCServer" where
  "body_opening ide method params s =
     (case ide method params s of
        (r, None) \<Rightarrow> (r, s)
      | (r, Some sketch) \<Rightarrow> (r, setCurrentSketch sketch s))"

definition handleContext :: "ide \<Rightarrow> string \<Rightarrow> jsval \<Rightarrow> ArduinoIPCServer \<Rightarrow> (thrown + jsval) \<times> ArduinoIPCServer" where
  "handleContext ide method params s =
     (if method = ''context/getState'' then body ide method params s
      else (Inl (Error (''Unknown context method: '' @ method)), s))"

definition handleRoots :: "string \<Rightarrow> jsval \<Rightarrow> ArduinoIPCServer \<Rightarrow> (thrown + jsval) \<times> ArduinoIPCServer" where
  "handleRoots method params s =
     (if method = ''roots/list'' then
        (case currentSketch s of
           Some sketch \<Rightarrow>
             (Inr (JArr [JObj [(''uri'', JStr (uri sketch)), (''name'', JStr (name sketch)),
                               (''isReadOnly'', JBool False)]]), s)
         | None \<Rightarrow> (Inr (JArr []), s))
      else (Inl (Error (''Unknown roots method: '' @ method)), s))"

definition sketch_cases :: "string list" where
  "sketch_cases = [''sketch/getCurrent'', ''sketch/getContent'', ''sketch/setContent'',
     ''sketch/list'', ''sketch/create'', ''sketch/open'', ''sketch/getFiles'', ''sketch/save'',
     ''sketch/listExamples'', ''sketch/fromExample'']"

definition handleSketch :: "ide \<Rightarrow> string \<Rightarrow> jsval \<Rightarrow> ArduinoIPCServer \<Rightarrow> (thrown + jsval) \<times> ArduinoIPCServer" where
  "handleSketch ide method params s =
     (if method = ''sketch/getCurrent'' then
        (Inr (case currentSketch s of
                Some sketch \<Rightarrow>
                  JObj [(''name'', JStr (name sketch)), (''uri'', JStr (uri sketch)),
                        (''mainFileUri'', JStr (mainFileUri sketch)),
                        (''otherSketchFileUris'', JArr (map JStr (otherSketchFileUris sketch))),
                        (''additionalFileUris'', JArr (map JStr (additionalFileUris sketch)))]
              | None \<Rightarrow> JNull), s)
      else if method = ''sketch/getFiles'' then
        (case currentSketch s of
           None \<Rightarrow> (Inl (Error ''No sketch is currently open''), s)
         | Some sketch \<Rightarrow>
             (Inr (JObj [(''mainFile'', JStr (mainFileUri sketch)),
                         (''otherSketchFiles'', JArr (map JStr (otherSketchFileUris sketch))),
                         (''additionalFiles'', JArr (map JStr (additionalFileUris sketch))),
                         (''rootFolderFiles'', JArr (map JStr (rootFolderFileUris sketch)))]), s))
      else if method = ''sketch/save'' then (Inr (JObj [(''success'', JBool True)]), s)
      else if method = ''sketch/open'' \<or> method = ''sketch/fromExample''
      then body_opening ide method params s
      else if method \<in> set sketch_cases then body ide method params s
      else (Inl (Error (''Unknown sketch method: '' @ method)), s))"

definition build_cases :: "string list" where
  "build_cases = [''build/compile'', ''build/upload'', ''build/getOutput'', ''build/getErrors'']"

definition handleBuild :: "ide \<Rightarrow> string \<Rightarrow> jsval \<Rightarrow> ArduinoIPCServer \<Rightarrow> (thrown + jsval) \<times> ArduinoIPCServer" where
  "handleBuild ide method params s =
     (if method = ''build/upload''
      then (Inl (Error ''Use arduino_upload tool for uploads (task-based)''), s)
      else if method = ''build/getOutput'' then
        (Inr (case lastBuildOutput s of
                Some (out, err) \<Rightarrow> JObj [(''stdout'', JStr out), (''stderr'', JStr err)]
              | None \<Rightarrow> JObj [(''stdout'', JStr []), (''stderr'', JStr [])]), s)
      else if method \<in> set build_cases then body ide method params s
      else (Inl (Error (''Unknown build method: '' @ method)), s))"

definition board_cases :: "string list" where
  "board_cases = [''board/listConnected'', ''board/listAvailable'', ''board/getSelected'',
     ''board/getInfo'', ''board/select'', ''board/search'', ''board/installCore'']"

definition handleBoard :: "ide \<Rightarrow> string \<Rightarrow> jsval \<Rightarrow> ArduinoIPCServer \<Rightarrow> (thrown + jsval) \<times> ArduinoIPCServer" where
  "handleBoard ide method params s =
     (if method = ''board/getSelected'' then (Inr JNull, s)
      else if method = ''board/select'' then (Inl (Error ''board/select not yet implemented''), s)
      else if method \<in> set board_cases then body ide method params s
      else (Inl (Error (''Unknown board method: '' @ method)), s))"

definition handleSerial :: "ide \<Rightarrow> string \<Rightarrow> jsval \<Rightarrow> ArduinoIPCServer \<Rightarrow> (thrown + jsval) \<times> ArduinoIPCServer" where
  "handleSerial ide method params s =
     (if method = ''serial/listPorts'' then body ide method params s
      else if method \<in> set [''serial/connect'', ''serial/disconnect'', ''serial/read'',
                             ''serial/write'']
      then (Inl (Error (method @ '' not yet implemented - requires MonitorService integration'')), s)
      else (Inl (Error (''Unknown serial method: '' @ method)), s))"

definition library_cases :: "string list" where
  "library_cases = [''library/list'', ''library/search'', ''library/install'',
     ''library/remove'', ''library/getInfo'']"

text \<open>\<^verbatim>\<open>handleLibrary\<close> tests for the service before it looks at the method.\<close>

definition handleLibrary :: "ide \<Rightarrow> string \<Rightarrow> jsval \<Rightarrow> ArduinoIPCServer \<Rightarrow> (thrown + jsval) \<times> ArduinoIPCServer" where
  "handleLibrary ide method params s =
     (if \<not> libraryService s then (Inl (Error ''LibraryService not available''), s)
      else if method \<in> set library_cases then body ide method params s
      else (Inl (Error (''Unknown library method: '' @ method)), s))"

text \<open>
  \<^verbatim>\<open>routeRequest(request)\<close>. The request is whatever \<^verbatim>\<open>JSON.parse\<close> returned:
  destructuring \<^verbatim>\<open>null\<close> throws, the template literal of the \<^verbatim>\<open>console.log\<close> throws when
  \<^verbatim>\<open>method\<close> has no text, and \<^verbatim>\<open>method.startsWith\<close> throws when \<^verbatim>\<open>method\<close> is not a string.
\<close>

definition routeRequest :: "ide \<Rightarrow> nat \<Rightarrow> jsval \<Rightarrow> ArduinoIPCServer \<Rightarrow> (thrown + jsval) \<times> ArduinoIPCServer" where
  "routeRequest ide now request s =
     (if request = JNull \<or> request = JUndefined
      then (Inl (Error (''Cannot destructure property '' @ quoted ''method'' @ '' of '' @
                        quoted ''request'' @ '' as it is '' @
                        (if request = JNull then ''null'' else ''undefined'') @ ''.'')), s)
      else
        (let method_v = opt_prop request ''method''; params = opt_prop request ''params''
         in case js_string method_v of
              Inl e \<Rightarrow> (Inl e, s)
            | Inr logged \<Rightarrow>
           (case method_v of
              JStr method \<Rightarrow>
                if startsWith method ''context/'' then handleContext ide method params s
                else if startsWith method ''roots/'' then handleRoots method params s
                else if startsWith method ''task/'' then handleTask now method params s
                else if startsWith method ''sketch/'' then handleSketch ide method params s
                else if startsWith method ''build/'' then handleBuild ide method params s
                else if startsWith method ''board/'' then handleBoard ide method params s
                else if startsWith method ''serial/'' then handleSerial ide method params s
                else if startsWith method ''library/'' then handleLibrary ide method params s
                else (Inl (Error (''Unknown IPC method: '' @ method)), s)
            | JUndefined \<Rightarrow>
                (Inl (Error (''Cannot read properties of undefined (reading '' @
                             quoted ''startsWith'' @ '')'')), s)
            | JNull \<Rightarrow>
                (Inl (Error (''Cannot read properties of null (reading '' @
                             quoted ''startsWith'' @ '')'')), s)
            | _ \<Rightarrow> (Inl (Error ''method.startsWith is not a function''), s))))"

section \<open>Messages\<close>

text \<open>A response with a result, and a response with an error of code \<open>-1\<close>.\<close>

definition result_response :: "jsval \<Rightarrow> jsval \<Rightarrow> IPCResponse" where
  "result_response i r = \<lparr>id_rsp = i, result_rsp = r, error_rsp = None\<rparr>"

definition error_response :: "jsval \<Rightarrow> string \<Rightarrow> IPCResponse" where
  "error_response i m =
     \<lparr>id_rsp = i, result_rsp = JUndefined, error_rsp = Some \<lparr>code = - 1, message = m\<rparr>\<rparr>"

text \<open>The \<^verbatim>\<open>catch\<close> block of \<^verbatim>\<open>handleMessage\<close>. Nothing catches what it throws itself:
  \<open>Inl\<close> is then the rejection of the promise \<^verbatim>\<open>handleMessage\<close> returned.\<close>

definition handleMessage_catch ::
  "socket \<Rightarrow> jsval \<Rightarrow> thrown \<Rightarrow> ArduinoIPCServer \<Rightarrow> (thrown + unit) \<times> ArduinoIPCServer" where
  "handleMessage_catch socket request e s =
     (let errMsg = errMessage e
      in case get_prop request ''id'' of
           Inl e' \<Rightarrow> (Inl e', s)
         | Inr i \<Rightarrow>
            (case socket_write socket (ResponseLine (error_response i errMsg)) s of
               Inl e' \<Rightarrow> (Inl e', s)
             | Inr s' \<Rightarrow> (Inr (), s')))"

text \<open>\<^verbatim>\<open>handleMessage\<close> after \<^verbatim>\<open>JSON.parse\<close> has returned \<open>request\<close>: the \<^verbatim>\<open>try\<close> block and
  its \<^verbatim>\<open>catch\<close>.\<close>

definition dispatch ::
  "ide \<Rightarrow> nat \<Rightarrow> socket \<Rightarrow> jsval \<Rightarrow> ArduinoIPCServer \<Rightarrow> (thrown + unit) \<times> ArduinoIPCServer" where
  "dispatch ide now socket request s =
     (case routeRequest ide now request s of
        (Inl e, s1) \<Rightarrow> handleMessage_catch socket request e s1
      | (Inr r, s1) \<Rightarrow>
         (case get_prop request ''id'' of
            Inl e \<Rightarrow> handleMessage_catch socket request e s1
          | Inr i \<Rightarrow>
             (case socket_write socket (ResponseLine (result_response i r)) s1 of
                Inl e \<Rightarrow> handleMessage_catch socket request e s1
              | Inr s2 \<Rightarrow> (Inr (), s2))))"

section \<open>Text on the wire\<close>

text \<open>A chunk read from the socket is a \<^verbatim>\<open>Buffer\<close> of bytes; a JavaScript string is a
  sequence of UTF-16 code units.\<close>

type_synonym byte = "8 word"
type_synonym jsstring = "16 word list"

text \<open>The code units of a code point.\<close>

definition units :: "nat \<Rightarrow> jsstring" where
  "units cp =
     (if cp < 0x10000 then [of_nat cp]
      else [of_nat (0xD800 + (cp - 0x10000) div 0x400),
            of_nat (0xDC00 + (cp - 0x10000) mod 0x400)])"

text \<open>
  \<^verbatim>\<open>data.toString()\<close>: the buffer decoded as UTF-8. \<open>needed\<close> continuation bytes are
  still to come for the code point \<open>cp\<close>, the next of them within \<open>lo\<close> and \<open>hi\<close>. A
  byte that cannot start or continue a sequence gives U+FFFD, and so does a sequence cut
  off by the end of the buffer: each buffer is decoded on its own.
\<close>

fun utf8 :: "nat \<Rightarrow> nat \<Rightarrow> nat \<Rightarrow> nat \<Rightarrow> byte list \<Rightarrow> jsstring" where
  "utf8 needed cp lo hi [] = (if needed = 0 then [] else [0xFFFD])"
| "utf8 needed cp lo hi (b # bs) =
     (if needed = 0 then
        (if unat b \<le> 0x7F then ucast b # utf8 0 0 0x80 0xBF bs
         else if 0xC2 \<le> unat b \<and> unat b \<le> 0xDF then utf8 1 (unat b - 0xC0) 0x80 0xBF bs
         else if 0xE0 \<le> unat b \<and> unat b \<le> 0xEF then
           utf8 2 (unat b - 0xE0) (if unat b = 0xE0 then 0xA0 else 0x80)
                (if unat b = 0xED then 0x9F else 0xBF) bs
         else if 0xF0 \<le> unat b \<and> unat b \<le> 0xF4 then
           utf8 3 (unat b - 0xF0) (if unat b = 0xF0 then 0x90 else 0x80)
                (if unat b = 0xF4 then 0x8F else 0xBF) bs
         else 0xFFFD # utf8 0 0 0x80 0xBF bs)
      else if lo \<le> unat b \<and> unat b \<le> hi then
        (if needed = 1 then units (cp * 64 + (unat b - 0x80)) @ utf8 0 0 0x80 0xBF bs
         else utf8 (needed - 1) (cp * 64 + (unat b - 0x80)) 0x80 0xBF bs)
      else 0xFFFD # utf8 0 0 0x80 0xBF (b # bs))"

definition toString :: "byte list \<Rightarrow> jsstring" where
  "toString chunk = utf8 0 0 0x80 0xBF chunk"

text \<open>\<^verbatim>\<open>buffer.split('\n')\<close>: the fragments between the newlines, one more than there
  are newlines.\<close>

fun split_newline :: "jsstring \<Rightarrow> jsstring list" where
  "split_newline [] = [[]]"
| "split_newline (c # cs) =
     (if c = 0x0A then [] # split_newline cs
      else (case split_newline cs of
              f # fs \<Rightarrow> (c # f) # fs
            | [] \<Rightarrow> [[c]]))"

text \<open>The white space and line terminators that \<^verbatim>\<open>trim\<close> removes.\<close>

definition is_whitespace :: "16 word \<Rightarrow> bool" where
  "is_whitespace c =
     (c \<in> set [0x9, 0xA, 0xB, 0xC, 0xD, 0x20, 0xA0, 0x1680, 0x2028, 0x2029, 0x202F, 0x205F,
               0x3000, 0xFEFF]
      \<or> (0x2000 \<le> c \<and> c \<le> 0x200A))"

definition trim :: "jsstring \<Rightarrow> jsstring" where
  "trim s = rev (dropWhile is_whitespace (rev (dropWhile is_whitespace s)))"

text \<open>
  The \<^verbatim>\<open>data\<close> listener up to its loop, on the text of the chunk:
  \<^verbatim>\<open>buffer += text; lines = buffer.split('\n'); buffer = lines.pop() || ''\<close>, and of the
  lines left those that the loop does not skip (\<^verbatim>\<open>if (!line.trim()) continue\<close>). It
  returns the new buffer and the lines that go to \<^verbatim>\<open>handleMessage\<close>, in order.
\<close>

definition on_text :: "jsstring \<Rightarrow> jsstring \<Rightarrow> jsstring \<times> jsstring list" where
  "on_text buffer text =
     (let lines = split_newline (buffer @ text)
      in if lines = [] then ([], [])
         else (last lines, filter (\<lambda>line. trim line \<noteq> []) (butlast lines)))"

definition on_data :: "jsstring \<Rightarrow> byte list \<Rightarrow> jsstring \<times> jsstring list" where
  "on_data buffer chunk = on_text buffer (toString chunk)"

text \<open>The listener run on one chunk after the other: the buffer left at the end and all
  the lines that went to \<^verbatim>\<open>handleMessage\<close>.\<close>

fun feed_text :: "jsstring \<Rightarrow> jsstring list \<Rightarrow> jsstring \<times> jsstring list" where
  "feed_text buffer [] = (buffer, [])"
| "feed_text buffer (t # ts) =
     (case on_text buffer t of
        (buffer1, lines) \<Rightarrow>
          (case feed_text buffer1 ts of (buffer2, later) \<Rightarrow> (buffer2, lines @ later)))"

fun feed :: "jsstring \<Rightarrow> byte list list \<Rightarrow> jsstring \<times> jsstring list" where
  "feed buffer [] = (buffer, [])"
| "feed buffer (d # ds) =
     (case on_data buffer d of
        (buffer1, lines) \<Rightarrow>
          (case feed buffer1 ds of (buffer2, later) \<Rightarrow> (buffer2, lines @ later)))"

section \<open>A connection\<close>

text \<open>
  \<^verbatim>\<open>handleMessage(socket, message)\<close> on the message \<open>msg\<close>; \<^verbatim>\<open>JSON.parse\<close> is the
  parameter \<open>parse\<close>, \<open>None\<close> when it throws.
\<close>

definition handleMessage ::
  "(jsstring \<Rightarrow> jsval option) \<Rightarrow> ide \<Rightarrow> nat \<Rightarrow> socket \<Rightarrow> jsstring \<Rightarrow> ArduinoIPCServer
     \<Rightarrow> (thrown + unit) \<times> ArduinoIPCServer" where
  "handleMessage parse ide now socket msg s =
     (case parse msg of
        None \<Rightarrow> (Inr (), s\<lparr>console := console s @ [''[arduino-mcp] Invalid JSON:'']\<rparr>)
      | Some request \<Rightarrow> dispatch ide now socket request s)"

text \<open>
  The loop of the \<^verbatim>\<open>data\<close> listener, \<^verbatim>\<open>await this.handleMessage(socket, line)\<close> for each
  line: a rejection ends the loop. \<open>clock k\<close> is what \<^verbatim>\<open>Date.now()\<close> returns while the
  \<open>k\<close>-th line is handled. A handler that awaits an IDE service is taken to be settled
  before the next line is handled and before the next chunk arrives.
\<close>

fun handle_lines ::
  "(jsstring \<Rightarrow> jsval option) \<Rightarrow> ide \<Rightarrow> (nat \<Rightarrow> nat) \<Rightarrow> nat \<Rightarrow> socket \<Rightarrow> jsstring list
     \<Rightarrow> ArduinoIPCServer \<Rightarrow> (thrown + unit) \<times> ArduinoIPCServer" where
  "handle_lines parse ide clock k socket [] s = (Inr (), s)"
| "handle_lines parse ide clock k socket (line # lines) s =
     (case handleMessage parse ide (clock k) socket line s of
        (Inl e, s1) \<Rightarrow> (Inl e, s1)
      | (Inr u, s1) \<Rightarrow> handle_lines parse ide clock (Suc k) socket lines s1)"

text \<open>The \<^verbatim>\<open>data\<close> listener on one chunk: the new buffer, how the listener ended, and the
  server.\<close>

definition data_listener ::
  "(jsstring \<Rightarrow> jsval option) \<Rightarrow> ide \<Rightarrow> (nat \<Rightarrow> nat) \<Rightarrow> socket \<Rightarrow> jsstring \<Rightarrow> byte list
     \<Rightarrow> ArduinoIPCServer \<Rightarrow> jsstring \<times> (thrown + unit) \<times> ArduinoIPCServer" where
  "data_listener parse ide clock socket buffer chunk s =
     (case on_data buffer chunk of
        (buffer1, lines) \<Rightarrow> (buffer1, handle_lines parse ide clock 0 socket lines s))"

text \<open>\<^verbatim>\<open>handleClientConnection\<close> adds the socket to the client set; its \<^verbatim>\<open>close\<close> and
  \<^verbatim>\<open>error\<close> listeners delete it, the second after a line on \<^verbatim>\<open>console.error\<close>.\<close>

definition handleClientConnection :: "socket \<Rightarrow> ArduinoIPCServer \<Rightarrow> ArduinoIPCServer" where
  "handleClientConnection socket s =
     (if socket \<in> set (clients s) then s else s\<lparr>clients := clients s @ [socket]\<rparr>)"

definition on_close :: "socket \<Rightarrow> ArduinoIPCServer \<Rightarrow> ArduinoIPCServer" where
  "on_close socket s = s\<lparr>clients := removeAll socket (clients s)\<rparr>"

definition on_error :: "socket \<Rightarrow> ArduinoIPCServer \<Rightarrow> ArduinoIPCServer" where
  "on_error socket s =
     s\<lparr>console := console s @ [''[arduino-mcp] Socket error:''],
       clients := removeAll socket (clients s)\<rparr>"

text \<open>
  What Node does after lines were written to the sockets \<open>cs\<close>: each broken one among
  them emits \<^verbatim>\<open>error\<close> and then \<^verbatim>\<open>close\<close>, and the two listeners run. This happens after
  the code that wrote has returned.
\<close>

fun failed_writes :: "socket list \<Rightarrow> ArduinoIPCServer \<Rightarrow> ArduinoIPCServer" where
  "failed_writes [] s = s"
| "failed_writes (c # cs) s =
     (if broken s c then failed_writes cs (on_close c (on_error c s)) else failed_writes cs s)"

text \<open>\<^verbatim>\<open>broadcast(event)\<close>, and then the events of the sockets on which the write
  failed.\<close>

definition broadcast_settled :: "IPCEvent \<Rightarrow> ArduinoIPCServer \<Rightarrow> ArduinoIPCServer" where
  "broadcast_settled ev s = failed_writes (clients s) (broadcast ev s)"

section \<open>Derived notions\<close>

text \<open>The \<^verbatim>\<open>case\<close> labels of \<^verbatim>\<open>handleSerial\<close>, and every method name that some handler
  has a branch for.\<close>

definition serial_cases :: "string list" where
  "serial_cases = [''serial/listPorts'', ''serial/connect'', ''serial/disconnect'',
     ''serial/read'', ''serial/write'']"

definition known_methods :: "string list" where
  "known_methods =
     [''context/getState'', ''roots/list'', ''task/create'', ''task/get'', ''task/cancel''] @
     sketch_cases @ build_cases @ board_cases @ serial_cases @ library_cases"

text \<open>The message thrown for a method that no branch matches: by the handler of its
  prefix, or by \<^verbatim>\<open>routeRequest\<close> when no prefix matches.\<close>

definition not_found_text :: "string \<Rightarrow> string" where
  "not_found_text method =
     (if startsWith method ''context/'' then ''Unknown context method: '' @ method
      else if startsWith method ''roots/'' then ''Unknown roots method: '' @ method
      else if startsWith method ''task/'' then ''Unknown task method: '' @ method
      else if startsWith method ''sketch/'' then ''Unknown sketch method: '' @ method
      else if startsWith method ''build/'' then ''Unknown build method: '' @ method
      else if startsWith method ''board/'' then ''Unknown board method: '' @ method
      else if startsWith method ''serial/'' then ''Unknown serial method: '' @ method
      else if startsWith method ''library/'' then ''Unknown library method: '' @ method
      else ''Unknown IPC method: '' @ method)"

text \<open>The response \<^verbatim>\<open>handleMessage\<close> builds for what \<^verbatim>\<open>routeRequest\<close> returned or threw.\<close>

definition response_for :: "jsval \<Rightarrow> thrown + jsval \<Rightarrow> IPCResponse" where
  "response_for request r =
     (case r of
        Inr v \<Rightarrow> result_response (opt_prop request ''id'') v
      | Inl e \<Rightarrow> error_response (opt_prop request ''id'') (errMessage e))"

text \<open>The server after \<^verbatim>\<open>routeRequest\<close>, with the one response line written to the
  socket.\<close>

definition answered ::
  "socket \<Rightarrow> jsval \<Rightarrow> (thrown + jsval) \<times> ArduinoIPCServer \<Rightarrow> ArduinoIPCServer" where
  "answered socket request rs =
     (snd rs)\<lparr>written := (written (snd rs))(socket :=
        written (snd rs) socket @ [ResponseLine (response_for request (fst rs))])\<rparr>"

text \<open>The server after the console line for a message that is not JSON.\<close>

definition logged_invalid :: "ArduinoIPCServer \<Rightarrow> ArduinoIPCServer" where
  "logged_invalid s = s\<lparr>console := console s @ [''[arduino-mcp] Invalid JSON:'']\<rparr>"

text \<open>The error object of the last response written to a socket.\<close>

definition last_error :: "socket \<Rightarrow> ArduinoIPCServer \<Rightarrow> ErrorObj option" where
  "last_error c s =
     (case rev (written s c) of
        ResponseLine r # earlier \<Rightarrow> error_rsp r
      | _ \<Rightarrow> None)"

text \<open>Two servers with the same task table, counter and scheduled task executions.\<close>

definition same_tasks :: "ArduinoIPCServer \<Rightarrow> ArduinoIPCServer \<Rightarrow> bool" where
  "same_tasks s s' \<longleftrightarrow>
     tasks s' = tasks s \<and> taskCounter s' = taskCounter s \<and> immediates s' = immediates s
     \<and> suspended s' = suspended s"

text \<open>
  What holds of the task table in every state the server reaches: each key was made by
  \<^verbatim>\<open>task/create\<close> from a counter value not above the current one; no task is scheduled or
  suspended twice; a task whose \<^verbatim>\<open>runTask\<close> is still queued is \<^verbatim>\<open>pending\<close> or \<^verbatim>\<open>cancelled\<close>;
  a task whose \<^verbatim>\<open>runTask\<close> is suspended is \<^verbatim>\<open>running\<close> or \<^verbatim>\<open>cancelled\<close>.
\<close>

definition consistent :: "ArduinoIPCServer \<Rightarrow> bool" where
  "consistent s \<longleftrightarrow>
     (\<forall>k t. tasks s k = Some t \<longrightarrow>
        (\<exists>n x. k = task_key n x \<and> n \<le> taskCounter s))
     \<and> distinct (immediates s @ map fst (suspended s))
     \<and> (\<forall>k\<in>set (immediates s). \<exists>t. tasks s k = Some t
                                    \<and> (status t = pending \<or> status t = cancelled))
     \<and> (\<forall>k\<in>set (map fst (suspended s)). \<exists>t. tasks s k = Some t
                                    \<and> (status t = running \<or> status t = cancelled))"

section \<open>Concrete inputs\<close>

definition blink :: Sketch where
  "blink = \<lparr>name = ''Blink'', uri = ''file:///sketches/Blink'',
            mainFileUri = ''file:///sketches/Blink/Blink.ino'', otherSketchFileUris = [],
            additionalFileUris = [], rootFolderFileUris = []\<rparr>"

text \<open>A server with both services injected and the sketch \<open>blink\<close> open.\<close>

definition blink_server :: ArduinoIPCServer where
  "blink_server = setCurrentSketch (Some blink) (new_server True True)"

definition create_compile :: action where
  "create_compile =
     Request 0 ''task/create''
       (JObj [(''tool'', JStr ''arduino_compile''),
              (''arguments'', JObj [(''fqbn'', JStr ''arduino:avr:uno'')])])"

definition cancel_first :: action where
  "cancel_first = Request 1 ''task/cancel'' (JObj [(''taskId'', JStr ''task_1_0'')])"

text \<open>What \<^verbatim>\<open>task/get\<close> answers for the first task.\<close>

definition get_first :: "ArduinoIPCServer \<Rightarrow> thrown + jsval" where
  "get_first s = fst (handleTask 2 ''task/get'' (JObj [(''taskId'', JStr ''task_1_0'')]) s)"

definition a_task :: "TaskStatus \<Rightarrow> Task" where
  "a_task st = \<lparr>id_task = ''task_1_0'', status = st, tool = JStr ''arduino_compile'',
               arguments = JObj [], result = JUndefined, error = None, progress = None,
               progressMessage = None\<rparr>"

definition server_with :: "Task \<Rightarrow> ArduinoIPCServer" where
  "server_with t = (new_server True True)\<lparr>tasks := [id_task t \<mapsto> t]\<rparr>"

text \<open>Three connected clients; the pipe of the second is broken.\<close>

definition three_clients :: ArduinoIPCServer where
  "three_clients = (new_server True True)\<lparr>clients := [1, 2, 3], broken := (\<lambda>c. c = 2)\<rparr>"

definition roots_changed :: IPCEvent where
  "roots_changed = \<lparr>event = ''roots/changed'', data = JObj []\<rparr>"

text \<open>The same sketch folder under another name: another object with the same uri.\<close>

definition blink_renamed :: Sketch where
  "blink_renamed = blink\<lparr>name := ''Blink2''\<rparr>"

text \<open>No IDE service answers: every body that needs one throws.\<close>

definition no_ide :: ide where
  "no_ide method params s = (Inl (Error ''IDE service not available''), None)"

text \<open>A server with one connected client, socket 1.\<close>

definition one_client :: ArduinoIPCServer where
  "one_client = handleClientConnection 1 (new_server True True)"

definition unknown_request :: jsval where
  "unknown_request =
     JObj [(''id'', JStr ''req_1''), (''method'', JStr ''nosuch/thing''), (''params'', JObj [])]"

definition failing_request :: jsval where
  "failing_request =
     JObj [(''id'', JStr ''req_2''), (''method'', JStr ''task/get''),
           (''params'', JObj [(''taskId'', JStr ''task_9_0'')])]"

definition roots_request :: jsval where
  "roots_request =
     JObj [(''id'', JStr ''req_3''), (''method'', JStr ''roots/list''), (''params'', JObj [])]"

text \<open>ASCII text as bytes and as code units; a JSON string literal.\<close>

definition bytes :: "string \<Rightarrow> byte list" where
  "bytes s = map of_char s"

definition ascii :: "string \<Rightarrow> jsstring" where
  "ascii s = map of_char s"

definition jstr :: "string \<Rightarrow> string" where
  "jstr s = CHR 0x22 # s @ [CHR 0x22]"

definition roots_line :: string where
  "roots_line = ''{'' @ jstr ''id'' @ '':'' @ jstr ''req_3'' @ '','' @ jstr ''method'' @ '':'' @
                jstr ''roots/list'' @ '','' @ jstr ''params'' @ '':{}}''"

definition unknown_line :: string where
  "unknown_line = ''{'' @ jstr ''id'' @ '':'' @ jstr ''req_1'' @ '','' @ jstr ''method'' @ '':'' @
                  jstr ''nosuch/thing'' @ '','' @ jstr ''params'' @ '':{}}''"

definition broken_line :: string where
  "broken_line = ''{'' @ jstr ''id'' @ '':''"

text \<open>What \<^verbatim>\<open>JSON.parse\<close> does on the three lines above (and a parser that knows no other
  line).\<close>

definition parse_lines :: "jsstring \<Rightarrow> jsval option" where
  "parse_lines text =
     (if text = ascii roots_line then Some roots_request
      else if text = ascii unknown_line then Some unknown_request
      else None)"

definition three_lines :: "byte list" where
  "three_lines = bytes (roots_line @ [CHR 0x0A] @ broken_line @ [CHR 0x0A] @ unknown_line @ [CHR 0x0A])"

section \<open>Properties of the task handlers\<close>

text \<open>
  C9. \<^verbatim>\<open>task/cancel\<close> with a \<^verbatim>\<open>taskId\<close> (a string) that is not in the task table succeeds
  with \<^verbatim>\<open>{cancelled: false}\<close> and leaves the server as it was, while \<^verbatim>\<open>task/get\<close> with the
  same \<^verbatim>\<open>taskId\<close> throws \<^verbatim>\<open>Task not found: <taskId>\<close>.
\<close>

theorem cancel_unknown_task:
  assumes "get_prop params ''taskId'' = Inr (JStr k)" and "tasks s k = None"
  shows "handleTask now ''task/cancel'' params s = (Inr (JObj [(''cancelled'', JBool False)]), s)
       \<and> handleTask now ''task/get'' params s = (Inl (Error (''Task not found: '' @ k)), s)"
  using assms by (simp add: handleTask_def)

theorem cancel_unknown_task_witness:
  "handleTask 5 ''task/cancel'' (JObj [(''taskId'', JStr ''task_9_0'')]) (new_server True True)
       = (Inr (JObj [(''cancelled'', JBool False)]), new_server True True)
   \<and> handleTask 5 ''task/get'' (JObj [(''taskId'', JStr ''task_9_0'')]) (new_server True True)
       = (Inl (Error ''Task not found: task_9_0''), new_server True True)"
  using cancel_unknown_task [of "JObj [(''taskId'', JStr ''task_9_0'')]" "''task_9_0''"
      "new_server True True" 5]
  by (simp add: new_server_def)

text \<open>
  C2. For a task of the task table, \<^verbatim>\<open>task/cancel\<close> answers \<^verbatim>\<open>{cancelled: true}\<close>, sets the
  status to \<^verbatim>\<open>cancelled\<close> and stores the error \<^verbatim>\<open>Cancelled by user\<close> exactly when the status
  is \<^verbatim>\<open>pending\<close> or \<^verbatim>\<open>running\<close>; in every other status (\<^verbatim>\<open>completed\<close>, \<^verbatim>\<open>failed\<close>,
  \<^verbatim>\<open>cancelled\<close>) it answers \<^verbatim>\<open>{cancelled: false}\<close> and changes nothing.
\<close>

theorem task_cancel_effect:
  assumes "get_prop params ''taskId'' = Inr (JStr k)" and "tasks s k = Some task"
  shows "handleTask now ''task/cancel'' params s =
           (if status task = pending \<or> status task = running
            then (Inr (JObj [(''cancelled'', JBool True)]),
                  s\<lparr>tasks := (tasks s)(k \<mapsto> task\<lparr>status := cancelled,
                                                   error := Some ''Cancelled by user''\<rparr>)\<rparr>)
            else (Inr (JObj [(''cancelled'', JBool False)]), s))"
  using assms by (simp add: handleTask_def)

theorem task_cancel_effect_witness:
  "fst (handleTask 1 ''task/cancel'' (JObj [(''taskId'', JStr ''task_1_0'')])
          (server_with (a_task running))) = Inr (JObj [(''cancelled'', JBool True)])
   \<and> tasks (snd (handleTask 1 ''task/cancel'' (JObj [(''taskId'', JStr ''task_1_0'')])
          (server_with (a_task running)))) ''task_1_0''
       = Some ((a_task running)\<lparr>status := cancelled, error := Some ''Cancelled by user''\<rparr>)
   \<and> handleTask 1 ''task/cancel'' (JObj [(''taskId'', JStr ''task_1_0'')])
          (server_with (a_task completed))
       = (Inr (JObj [(''cancelled'', JBool False)]), server_with (a_task completed))"
proof -
  have p: "get_prop (JObj [(''taskId'', JStr ''task_1_0'')]) ''taskId'' = Inr (JStr ''task_1_0'')"
    by simp
  have t: "tasks (server_with (a_task st)) ''task_1_0'' = Some (a_task st)" for st
    by (simp add: server_with_def a_task_def)
  show ?thesis
    using task_cancel_effect [OF p t [of running], where now = 1]
      task_cancel_effect [OF p t [of completed], where now = 1]
    by (simp add: a_task_def)
qed

text \<open>
  C3. \<^verbatim>\<open>task/create\<close> with any \<^verbatim>\<open>tool\<close> and \<^verbatim>\<open>arguments\<close> answers \<^verbatim>\<open>{taskId}\<close>, and the
  server it leaves differs from the one it found in three places only: the counter, the
  new task stored under \<^verbatim>\<open>taskId\<close> with status \<^verbatim>\<open>pending\<close>, and the \<^verbatim>\<open>runTask\<close> callback
  appended to the queue of immediates. No part of \<^verbatim>\<open>runTask\<close> has run: a \<^verbatim>\<open>task/get\<close>
  on that server answers status \<^verbatim>\<open>pending\<close>, with no result and no error.
\<close>

theorem task_create_pending:
  fixes kvs now s
  defines "taskId \<equiv> task_key (taskCounter s + 1) now"
  defines "task \<equiv> \<lparr>id_task = taskId, status = pending, tool = opt_prop (JObj kvs) ''tool'',
                   arguments = opt_prop (JObj kvs) ''arguments'', result = JUndefined,
                   error = None, progress = None, progressMessage = None\<rparr>"
  defines "s' \<equiv> s\<lparr>taskCounter := taskCounter s + 1, tasks := (tasks s)(taskId \<mapsto> task),
                  immediates := immediates s @ [taskId]\<rparr>"
  shows "handleTask now ''task/create'' (JObj kvs) s = (Inr (JObj [(''taskId'', JStr taskId)]), s')
       \<and> tasks s' taskId = Some task \<and> status task = pending
       \<and> handleTask now' ''task/get'' (JObj [(''taskId'', JStr taskId)]) s'
           = (Inr (JObj [(''status'', JStr ''pending''), (''result'', JUndefined),
                         (''error'', JUndefined), (''progress'', JUndefined),
                         (''progressMessage'', JUndefined)]), s')"
  unfolding taskId_def task_def s'_def
  by (simp add: handleTask_def Let_def snapshot_def opt_str_def opt_num_def)

theorem task_create_pending_witness:
  "fst (handleTask 1 ''task/get'' (JObj [(''taskId'', JStr ''task_1_0'')])
          (step create_compile blink_server))
     = Inr (JObj [(''status'', JStr ''pending''), (''result'', JUndefined),
                  (''error'', JUndefined), (''progress'', JUndefined),
                  (''progressMessage'', JUndefined)])
   \<and> immediates (step create_compile blink_server) = [''task_1_0'']"
  using task_create_pending [of 0 "[(''tool'', JStr ''arduino_compile''),
              (''arguments'', JObj [(''fqbn'', JStr ''arduino:avr:uno'')])]" blink_server 1]
  by (simp add: create_compile_def blink_server_def setCurrentSketch_def emitRootsChanged_def
      broadcast_def new_server_def task_key_def digits.simps digit_char_def)

text \<open>
  C1, at a failing input. A compile task is created and its \<^verbatim>\<open>setImmediate\<close> callback
  runs: \<^verbatim>\<open>runTask\<close> is suspended at \<^verbatim>\<open>await this.coreService.compile(...)\<close> and the task is
  \<^verbatim>\<open>running\<close>. Now \<^verbatim>\<open>task/cancel\<close> answers \<^verbatim>\<open>{cancelled: true}\<close> and \<^verbatim>\<open>task/get\<close> reports
  the terminal status \<^verbatim>\<open>cancelled\<close>. When the compilation ends, the code after the
  \<^verbatim>\<open>await\<close> assigns without looking at the status, and \<^verbatim>\<open>task/get\<close> reports \<^verbatim>\<open>completed\<close>
  with a result (or \<^verbatim>\<open>failed\<close>, when the compilation fails). The same happens to a task
  cancelled while it is pending, when the cancel request is handled before the callback:
  \<^verbatim>\<open>runTask\<close> assigns \<^verbatim>\<open>running\<close> over \<^verbatim>\<open>cancelled\<close>.
\<close>

theorem cancelled_task_runs_again:
  "get_first (steps [create_compile, Immediate] blink_server)
     = Inr (JObj [(''status'', JStr ''running''), (''result'', JUndefined),
                  (''error'', JUndefined), (''progress'', JUndefined),
                  (''progressMessage'', JUndefined)])
   \<and> fst (handleTask 1 ''task/cancel'' (JObj [(''taskId'', JStr ''task_1_0'')])
            (steps [create_compile, Immediate] blink_server))
     = Inr (JObj [(''cancelled'', JBool True)])
   \<and> get_first (steps [create_compile, Immediate, cancel_first] blink_server)
     = Inr (JObj [(''status'', JStr ''cancelled''), (''result'', JUndefined),
                  (''error'', JStr ''Cancelled by user''), (''progress'', JUndefined),
                  (''progressMessage'', JUndefined)])
   \<and> get_first (steps [create_compile, Immediate, cancel_first,
                        Settle ''task_1_0'' (Resolved JUndefined)] blink_server)
     = Inr (JObj [(''status'', JStr ''completed''),
                  (''result'', JObj [(''success'', JBool True), (''buildPath'', JUndefined),
                                     (''executableSectionsSize'', JUndefined)]),
                  (''error'', JStr ''Cancelled by user''), (''progress'', JUndefined),
                  (''progressMessage'', JUndefined)])
   \<and> get_first (steps [create_compile, Immediate, cancel_first,
                        Settle ''task_1_0'' (Rejected (Error ''exit status 1''))] blink_server)
     = Inr (JObj [(''status'', JStr ''failed''), (''result'', JUndefined),
                  (''error'', JStr ''Compilation failed: exit status 1''),
                  (''progress'', JUndefined), (''progressMessage'', JUndefined)])
   \<and> get_first (steps [create_compile, cancel_first] blink_server)
     = Inr (JObj [(''status'', JStr ''cancelled''), (''result'', JUndefined),
                  (''error'', JStr ''Cancelled by user''), (''progress'', JUndefined),
                  (''progressMessage'', JUndefined)])
   \<and> get_first (steps [create_compile, cancel_first, Immediate] blink_server)
     = Inr (JObj [(''status'', JStr ''running''), (''result'', JUndefined),
                  (''error'', JStr ''Cancelled by user''), (''progress'', JUndefined),
                  (''progressMessage'', JUndefined)])"
  by code_simp

section \<open>Properties of event emission\<close>

lemma broadcast_loop_frame:
  "clients (broadcast_loop m cs s) = clients s \<and> tasks (broadcast_loop m cs s) = tasks s
   \<and> taskCounter (broadcast_loop m cs s) = taskCounter s
   \<and> lastBuildOutput (broadcast_loop m cs s) = lastBuildOutput s
   \<and> currentSketch (broadcast_loop m cs s) = currentSketch s
   \<and> coreService (broadcast_loop m cs s) = coreService s
   \<and> libraryService (broadcast_loop m cs s) = libraryService s
   \<and> immediates (broadcast_loop m cs s) = immediates s
   \<and> suspended (broadcast_loop m cs s) = suspended s
   \<and> write_throws (broadcast_loop m cs s) = write_throws s
   \<and> broken (broadcast_loop m cs s) = broken s"
  by (induction cs arbitrary: s) (simp_all add: socket_write_def)

text \<open>Each pass of the loop appends the message to the socket it visits, unless the
  write throws.\<close>

lemma broadcast_loop_written:
  "written (broadcast_loop m cs s) c =
     written s c @ (if write_throws s c then [] else replicate (count_list cs c) m)"
proof (induction cs arbitrary: s)
  case Nil
  show ?case by simp
next
  case (Cons c0 cs)
  show ?case
  proof (cases "write_throws s c0")
    case True
    then show ?thesis by (auto simp add: socket_write_def Cons.IH)
  next
    case False
    then show ?thesis by (simp add: socket_write_def Cons.IH replicate_append_same)
  qed
qed

lemma broadcast_loop_console:
  "console (broadcast_loop m cs s) =
     console s @ replicate (length (filter (write_throws s) cs))
                   ''[arduino-mcp] Failed to send event:''"
proof (induction cs arbitrary: s)
  case Nil
  show ?case by simp
next
  case (Cons c0 cs)
  show ?case
    by (cases "write_throws s c0") (simp_all add: socket_write_def Cons.IH replicate_append_same)
qed

lemma count_list_distinct:
  "distinct cs \<Longrightarrow> count_list cs c = (if c \<in> set cs then 1 else 0)"
  by (induction cs) auto

lemma failed_writes_effect:
  "clients (failed_writes cs s) = filter (\<lambda>c. \<not> (c \<in> set cs \<and> broken s c)) (clients s)
   \<and> console (failed_writes cs s) =
         console s @ replicate (length (filter (broken s) cs)) ''[arduino-mcp] Socket error:''
   \<and> written (failed_writes cs s) = written s \<and> tasks (failed_writes cs s) = tasks s
   \<and> broken (failed_writes cs s) = broken s"
proof (induction cs arbitrary: s)
  case Nil
  show ?case by simp
next
  case (Cons c0 cs)
  show ?case
  proof (cases "broken s c0")
    case True
    have "filter (\<lambda>c. \<not> (c \<in> set cs \<and> broken s c)) (removeAll c0 (clients s))
            = filter (\<lambda>c. \<not> ((c = c0 \<or> c \<in> set cs) \<and> broken s c)) (clients s)"
      unfolding removeAll_filter_not_eq filter_filter
      using True by (intro filter_cong) auto
    then show ?thesis
      using True
      by (simp add: Cons.IH on_error_def on_close_def replicate_append_same
          removeAll_filter_not_eq)
  next
    case False
    have "filter (\<lambda>c. \<not> (c \<in> set cs \<and> broken s c)) (clients s)
            = filter (\<lambda>c. \<not> ((c = c0 \<or> c \<in> set cs) \<and> broken s c)) (clients s)"
      using False by (intro filter_cong) auto
    then show ?thesis using False by (simp add: Cons.IH)
  qed
qed

text \<open>
  C8. \<^verbatim>\<open>broadcast\<close> builds the line once and writes it to every client of the set, and
  returns normally whatever the writes do. A client whose write fails (a broken pipe) does
  not keep the others from being written to; when its \<^verbatim>\<open>error\<close> event arrives the failure is
  logged and the client is deleted from the set, the other clients stay. Were a \<^verbatim>\<open>write\<close>
  to throw, the \<^verbatim>\<open>catch\<close> of the loop logs it and the loop goes on.
\<close>

theorem broadcast_isolated:
  assumes "distinct (clients s)"
  shows "(\<forall>c. written (broadcast ev s) c =
              (if c \<in> set (clients s) \<and> \<not> write_throws s c
               then written s c @ [EventLine ev] else written s c))
       \<and> clients (broadcast ev s) = clients s
       \<and> written (broadcast_settled ev s) = written (broadcast ev s)
       \<and> clients (broadcast_settled ev s) = filter (\<lambda>c. \<not> broken s c) (clients s)
       \<and> console (broadcast_settled ev s) =
            console s
            @ replicate (length (filter (write_throws s) (clients s)))
                ''[arduino-mcp] Failed to send event:''
            @ replicate (length (filter (broken s) (clients s))) ''[arduino-mcp] Socket error:''
       \<and> tasks (broadcast_settled ev s) = tasks s"
proof -
  have b: "broken (broadcast ev s) = broken s" "clients (broadcast ev s) = clients s"
    by (simp_all add: broadcast_def broadcast_loop_frame)
  have f: "filter (\<lambda>c. \<not> (c \<in> set (clients s) \<and> broken s c)) (clients s)
             = filter (\<lambda>c. \<not> broken s c) (clients s)"
    by (intro filter_cong) auto
  show ?thesis
    using assms b f failed_writes_effect [of "clients s" "broadcast ev s"]
    by (simp add: broadcast_settled_def broadcast_def broadcast_loop_written
        broadcast_loop_console broadcast_loop_frame count_list_distinct)
qed

theorem broadcast_isolated_witness:
  "written (broadcast roots_changed three_clients) 1 = [EventLine roots_changed]
   \<and> written (broadcast roots_changed three_clients) 3 = [EventLine roots_changed]
   \<and> clients (broadcast roots_changed three_clients) = [1, 2, 3]
   \<and> clients (broadcast_settled roots_changed three_clients) = [1, 3]
   \<and> console (broadcast_settled roots_changed three_clients) = [''[arduino-mcp] Socket error:'']
   \<and> written (broadcast_settled roots_changed three_clients) 1 = [EventLine roots_changed]
   \<and> written (broadcast_settled roots_changed three_clients) 3 = [EventLine roots_changed]"
proof -
  have d: "distinct (clients three_clients)" by (simp add: three_clients_def)
  show ?thesis using broadcast_isolated [OF d, of roots_changed]
    by (simp add: three_clients_def new_server_def)
qed

text \<open>
  C10. \<^verbatim>\<open>setCurrentSketch(sketch)\<close> always stores \<open>sketch\<close>. When the uri of the new sketch
  differs from the uri of the previous one (\<^verbatim>\<open>null\<close> having none), every client whose
  write succeeds is sent one \<^verbatim>\<open>roots/changed\<close> event; when the uris are equal nothing is
  written to any socket. Tasks, the task counter, the client set, the build output and the
  scheduled task executions stay as they were.
\<close>

theorem setCurrentSketch_effect:
  fixes sketch s
  assumes "distinct (clients s)"
  defines "s' \<equiv> setCurrentSketch sketch s"
  defines "changed \<equiv> map_option uri (currentSketch s) \<noteq> map_option uri sketch"
  shows "currentSketch s' = sketch
       \<and> (\<forall>c. written s' c =
              (if changed \<and> c \<in> set (clients s) \<and> \<not> write_throws s c
               then written s c @ [EventLine \<lparr>event = ''roots/changed'', data = JObj []\<rparr>]
               else written s c))
       \<and> tasks s' = tasks s \<and> taskCounter s' = taskCounter s \<and> clients s' = clients s
       \<and> lastBuildOutput s' = lastBuildOutput s \<and> immediates s' = immediates s
       \<and> suspended s' = suspended s"
  using assms(1) unfolding s'_def changed_def
  by (simp add: setCurrentSketch_def emitRootsChanged_def Let_def broadcast_def
      broadcast_loop_written broadcast_loop_frame count_list_distinct)

theorem setCurrentSketch_effect_witness:
  "written (setCurrentSketch (Some blink) three_clients) 1 = [EventLine roots_changed]
   \<and> currentSketch (setCurrentSketch (Some blink) three_clients) = Some blink
   \<and> written (setCurrentSketch (Some blink_renamed)
                (three_clients\<lparr>currentSketch := Some blink\<rparr>)) 1 = []
   \<and> currentSketch (setCurrentSketch (Some blink_renamed)
                (three_clients\<lparr>currentSketch := Some blink\<rparr>)) = Some blink_renamed"
proof -
  have d1: "distinct (clients three_clients)" by (simp add: three_clients_def)
  have d2: "distinct (clients (three_clients\<lparr>currentSketch := Some blink\<rparr>))"
    by (simp add: three_clients_def)
  show ?thesis
    using setCurrentSketch_effect [OF d1, of "Some blink"]
      setCurrentSketch_effect [OF d2, of "Some blink_renamed"]
    by (simp add: three_clients_def new_server_def roots_changed_def blink_renamed_def blink_def)
qed

section \<open>Properties of routing and of the response\<close>

lemma setCurrentSketch_frame:
  "clients (setCurrentSketch sk s) = clients s
   \<and> write_throws (setCurrentSketch sk s) = write_throws s"
  by (simp add: setCurrentSketch_def emitRootsChanged_def broadcast_def Let_def
      broadcast_loop_frame)

lemma handleTask_frame:
  "clients (snd (handleTask now method params s)) = clients s
   \<and> write_throws (snd (handleTask now method params s)) = write_throws s"
  by (simp add: handleTask_def Let_def split: sum.splits option.splits)

lemma body_frame: "snd (body ide method params s) = s"
  by (simp add: body_def)

lemma body_opening_frame:
  "clients (snd (body_opening ide method params s)) = clients s
   \<and> write_throws (snd (body_opening ide method params s)) = write_throws s"
  by (simp add: body_opening_def setCurrentSketch_frame split: prod.splits option.splits)

lemma handleContext_frame:
  "clients (snd (handleContext ide method params s)) = clients s
   \<and> write_throws (snd (handleContext ide method params s)) = write_throws s"
  by (simp add: handleContext_def body_frame)

lemma handleRoots_frame:
  "clients (snd (handleRoots method params s)) = clients s
   \<and> write_throws (snd (handleRoots method params s)) = write_throws s"
  by (simp add: handleRoots_def split: option.splits)

lemma handleSketch_frame:
  "clients (snd (handleSketch ide method params s)) = clients s
   \<and> write_throws (snd (handleSketch ide method params s)) = write_throws s"
  unfolding handleSketch_def by (simp add: body_frame body_opening_frame split: option.splits)

lemma handleBuild_frame:
  "clients (snd (handleBuild ide method params s)) = clients s
   \<and> write_throws (snd (handleBuild ide method params s)) = write_throws s"
  unfolding handleBuild_def by (simp add: body_frame split: option.splits)

lemma handleBoard_frame:
  "clients (snd (handleBoard ide method params s)) = clients s
   \<and> write_throws (snd (handleBoard ide method params s)) = write_throws s"
  unfolding handleBoard_def by (simp add: body_frame)

lemma handleSerial_frame:
  "clients (snd (handleSerial ide method params s)) = clients s
   \<and> write_throws (snd (handleSerial ide method params s)) = write_throws s"
  unfolding handleSerial_def by (simp add: body_frame)

lemma handleLibrary_frame:
  "clients (snd (handleLibrary ide method params s)) = clients s
   \<and> write_throws (snd (handleLibrary ide method params s)) = write_throws s"
  unfolding handleLibrary_def by (simp add: body_frame)

text \<open>Routing a request neither changes the client set nor what a socket does on a
  write.\<close>

lemma routeRequest_frame:
  "clients (snd (routeRequest ide now request s)) = clients s
   \<and> write_throws (snd (routeRequest ide now request s)) = write_throws s"
  unfolding routeRequest_def Let_def
  by (cases "opt_prop request ''method''")
     (simp_all add: handleContext_frame handleRoots_frame handleSketch_frame handleBuild_frame
        handleBoard_frame handleSerial_frame handleLibrary_frame handleTask_frame
        split: sum.splits)

lemma get_prop_defined:
  "request \<noteq> JNull \<Longrightarrow> request \<noteq> JUndefined \<Longrightarrow> get_prop request k = Inr (opt_prop request k)"
  by (cases request) simp_all

text \<open>Whatever \<^verbatim>\<open>routeRequest\<close> returns or throws, \<^verbatim>\<open>handleMessage\<close> writes one response
  and returns normally, when the request is not \<^verbatim>\<open>null\<close> and the write does not throw.\<close>

lemma dispatch_responds:
  assumes "request \<noteq> JNull" and "request \<noteq> JUndefined" and "\<not> write_throws s socket"
  shows "dispatch ide now socket request s
           = (Inr (), answered socket request (routeRequest ide now request s))"
proof -
  obtain r s1 where rs: "routeRequest ide now request s = (r, s1)"
    by (cases "routeRequest ide now request s")
  have w: "\<not> write_throws s1 socket"
    using routeRequest_frame [of ide now request s] assms(3) rs by simp
  show ?thesis
    using assms(1,2) rs w
    by (cases r)
       (simp_all add: dispatch_def handleMessage_catch_def get_prop_defined socket_write_def
          response_for_def answered_def Let_def)
qed

lemma answered_frame:
  "clients (answered socket request rs) = clients (snd rs)
   \<and> write_throws (answered socket request rs) = write_throws (snd rs)"
  by (simp add: answered_def)

lemma handleContext_unknown:
  "method \<noteq> ''context/getState'' \<Longrightarrow>
   handleContext ide method params s = (Inl (Error (''Unknown context method: '' @ method)), s)"
  by (simp add: handleContext_def)

lemma handleRoots_unknown:
  "method \<noteq> ''roots/list'' \<Longrightarrow>
   handleRoots method params s = (Inl (Error (''Unknown roots method: '' @ method)), s)"
  by (simp add: handleRoots_def)

lemma handleTask_unknown:
  "method \<notin> set [''task/create'', ''task/get'', ''task/cancel''] \<Longrightarrow>
   handleTask now method params s = (Inl (Error (''Unknown task method: '' @ method)), s)"
  by (simp add: handleTask_def)

lemma handleSketch_unknown:
  "method \<notin> set sketch_cases \<Longrightarrow>
   handleSketch ide method params s = (Inl (Error (''Unknown sketch method: '' @ method)), s)"
  unfolding handleSketch_def by (auto simp add: sketch_cases_def)

lemma handleBuild_unknown:
  "method \<notin> set build_cases \<Longrightarrow>
   handleBuild ide method params s = (Inl (Error (''Unknown build method: '' @ method)), s)"
  unfolding handleBuild_def by (auto simp add: build_cases_def)

lemma handleBoard_unknown:
  "method \<notin> set board_cases \<Longrightarrow>
   handleBoard ide method params s = (Inl (Error (''Unknown board method: '' @ method)), s)"
  unfolding handleBoard_def by (auto simp add: board_cases_def)

lemma handleSerial_unknown:
  "method \<notin> set serial_cases \<Longrightarrow>
   handleSerial ide method params s = (Inl (Error (''Unknown serial method: '' @ method)), s)"
  unfolding handleSerial_def by (auto simp add: serial_cases_def)

lemma handleLibrary_unknown:
  "libraryService s \<Longrightarrow> method \<notin> set library_cases \<Longrightarrow>
   handleLibrary ide method params s = (Inl (Error (''Unknown library method: '' @ method)), s)"
  unfolding handleLibrary_def by simp

text \<open>A method for which no handler has a branch makes \<^verbatim>\<open>routeRequest\<close> throw the
  "unknown method" error of its prefix, and leaves the server as it was.\<close>

lemma routeRequest_unknown:
  assumes "request \<noteq> JNull" and "request \<noteq> JUndefined"
    and "opt_prop request ''method'' = JStr method"
    and "method \<notin> set known_methods"
    and "startsWith method ''library/'' \<longrightarrow> libraryService s"
  shows "routeRequest ide now request s = (Inl (Error (not_found_text method)), s)"
proof -
  have k: "method \<noteq> ''context/getState''" "method \<noteq> ''roots/list''"
    "method \<notin> set [''task/create'', ''task/get'', ''task/cancel'']"
    "method \<notin> set sketch_cases" "method \<notin> set build_cases" "method \<notin> set board_cases"
    "method \<notin> set serial_cases" "method \<notin> set library_cases"
    using assms(4) unfolding known_methods_def by simp_all
  show ?thesis
    unfolding routeRequest_def Let_def not_found_text_def
    using assms(1,2,3,5) k(4-8)
    by (simp add: handleContext_unknown [OF k(1)] handleRoots_unknown [OF k(2)]
        handleTask_unknown [OF k(3)] handleSketch_unknown handleBuild_unknown
        handleBoard_unknown handleSerial_unknown handleLibrary_unknown)
qed

text \<open>The request \<^verbatim>\<open>null\<close> is not answered: \<^verbatim>\<open>routeRequest\<close> throws on it, and so does the
  \<^verbatim>\<open>catch\<close> block when it reads \<^verbatim>\<open>request.id\<close>; the promise of \<^verbatim>\<open>handleMessage\<close> is rejected
  and nothing is written.\<close>

lemma null_request_rejected:
  "dispatch ide now socket JNull s =
     (Inl (Error (''Cannot read properties of null (reading '' @ quoted ''id'' @ '')'')), s)"
  by (simp add: dispatch_def routeRequest_def handleMessage_catch_def)

text \<open>
  C7. When \<^verbatim>\<open>JSON.parse\<close> returns a request (any value but \<^verbatim>\<open>null\<close>) and the socket
  accepts the write, \<^verbatim>\<open>handleMessage\<close> returns normally and has written exactly one line
  to the socket, after whatever routing did: a response with the id of the request,
  carrying the result when \<^verbatim>\<open>routeRequest\<close> returned one, and carrying the error
  \<^verbatim>\<open>{code: -1, message}\<close> with the message of the failure when \<^verbatim>\<open>routeRequest\<close> threw.
  The client set is as before: the connection stays.
\<close>

theorem handleMessage_one_response:
  assumes "parse msg = Some request" and "request \<noteq> JNull" and "request \<noteq> JUndefined"
    and "\<not> write_throws s socket"
    and "routeRequest ide now request s = (r, s1)"
  shows "handleMessage parse ide now socket msg s =
           (Inr (), s1\<lparr>written := (written s1)(socket :=
                          written s1 socket @ [ResponseLine (response_for request r)])\<rparr>)
       \<and> id_rsp (response_for request r) = opt_prop request ''id''
       \<and> (case r of
             Inr v \<Rightarrow> response_for request r
                        = \<lparr>id_rsp = opt_prop request ''id'', result_rsp = v, error_rsp = None\<rparr>
           | Inl e \<Rightarrow> response_for request r
                        = \<lparr>id_rsp = opt_prop request ''id'', result_rsp = JUndefined,
                           error_rsp = Some \<lparr>code = - 1, message = errMessage e\<rparr>\<rparr>)
       \<and> clients s1 = clients s"
  using assms dispatch_responds [of request s socket ide now]
    routeRequest_frame [of ide now request s]
  by (cases r)
     (simp_all add: handleMessage_def answered_def response_for_def result_response_def
        error_response_def)

theorem handleMessage_one_response_witness:
  "handleMessage parse_lines no_ide 0 1 (ascii roots_line) one_client =
     (Inr (), one_client\<lparr>written := (written one_client)(1 :=
        written one_client 1 @ [ResponseLine (response_for roots_request (Inr (JArr [])))])\<rparr>)
   \<and> response_for roots_request (Inr (JArr []))
       = \<lparr>id_rsp = JStr ''req_3'', result_rsp = JArr [], error_rsp = None\<rparr>
   \<and> handleMessage parse_lines no_ide 0 1 (ascii unknown_line) one_client =
     (Inr (), one_client\<lparr>written := (written one_client)(1 :=
        written one_client 1 @ [ResponseLine (response_for unknown_request
           (Inl (Error ''Unknown IPC method: nosuch/thing'')))])\<rparr>)
   \<and> response_for unknown_request (Inl (Error ''Unknown IPC method: nosuch/thing''))
       = \<lparr>id_rsp = JStr ''req_1'', result_rsp = JUndefined,
          error_rsp = Some \<lparr>code = - 1, message = ''Unknown IPC method: nosuch/thing''\<rparr>\<rparr>"
proof -
  have p1: "parse_lines (ascii roots_line) = Some roots_request"
    by (simp add: parse_lines_def)
  have n1: "roots_request \<noteq> JNull" "roots_request \<noteq> JUndefined"
    by (simp_all add: roots_request_def)
  have w: "\<not> write_throws one_client 1"
    by (simp add: one_client_def handleClientConnection_def new_server_def)
  have r1: "routeRequest no_ide 0 roots_request one_client = (Inr (JArr []), one_client)"
    by (simp add: routeRequest_def roots_request_def startsWith_def handleRoots_def
        one_client_def handleClientConnection_def new_server_def)
  have d: "ascii unknown_line \<noteq> ascii roots_line"
    by (simp add: ascii_def unknown_line_def roots_line_def jstr_def)
  have p2: "parse_lines (ascii unknown_line) = Some unknown_request"
    using d by (simp add: parse_lines_def)
  have n2: "unknown_request \<noteq> JNull" "unknown_request \<noteq> JUndefined"
    by (simp_all add: unknown_request_def)
  have r2: "routeRequest no_ide 0 unknown_request one_client
              = (Inl (Error ''Unknown IPC method: nosuch/thing''), one_client)"
    by (simp add: routeRequest_def unknown_request_def startsWith_def)
  show ?thesis
    using handleMessage_one_response
        [where parse = parse_lines and msg = "ascii roots_line", OF p1 n1 w r1]
      handleMessage_one_response
        [where parse = parse_lines and msg = "ascii unknown_line", OF p2 n2 w r2]
    by (simp add: roots_request_def unknown_request_def)
qed

text \<open>
  C4, as the code has it. Every failure that \<^verbatim>\<open>routeRequest\<close> throws, whether no branch
  matches the method or a matched handler fails, is answered by \<^verbatim>\<open>handleMessage\<close> with
  the same structure: an error of code \<open>-1\<close> and the message of the failure. For a
  method that no handler has a branch for (under \<^verbatim>\<open>library/\<close>: when the library service
  is injected) the message is the "Unknown ... method" text and the server is otherwise
  unchanged. The two kinds of failure differ in the message only.
\<close>

theorem thrown_failure_response:
  assumes "parse msg = Some request" and "request \<noteq> JNull" and "request \<noteq> JUndefined"
    and "\<not> write_throws s socket"
    and "routeRequest ide now request s = (Inl e, s1)"
  shows "handleMessage parse ide now socket msg s =
           (Inr (), s1\<lparr>written := (written s1)(socket := written s1 socket @
              [ResponseLine \<lparr>id_rsp = opt_prop request ''id'', result_rsp = JUndefined,
                             error_rsp = Some \<lparr>code = - 1, message = errMessage e\<rparr>\<rparr>])\<rparr>)
       \<and> (opt_prop request ''method'' = JStr meth \<and> meth \<notin> set known_methods
            \<and> (startsWith meth ''library/'' \<longrightarrow> libraryService s)
          \<longrightarrow> e = Error (not_found_text meth) \<and> s1 = s)"
proof -
  have "dispatch ide now socket request s
          = (Inr (), answered socket request (Inl e, s1))"
    using dispatch_responds [OF assms(2,3,4), of ide now] assms(5) by simp
  then have a: "handleMessage parse ide now socket msg s =
           (Inr (), s1\<lparr>written := (written s1)(socket := written s1 socket @
              [ResponseLine \<lparr>id_rsp = opt_prop request ''id'', result_rsp = JUndefined,
                             error_rsp = Some \<lparr>code = - 1, message = errMessage e\<rparr>\<rparr>])\<rparr>)"
    using assms(1)
    by (simp add: handleMessage_def answered_def response_for_def error_response_def)
  have b: "e = Error (not_found_text meth) \<and> s1 = s"
    if "opt_prop request ''method'' = JStr meth" "meth \<notin> set known_methods"
      "startsWith meth ''library/'' \<longrightarrow> libraryService s"
    using routeRequest_unknown [OF assms(2,3) that, of ide now] assms(5) by simp
  show ?thesis using a b by blast
qed

theorem thrown_failure_response_witness:
  "handleMessage parse_lines no_ide 0 1 (ascii unknown_line) one_client =
     (Inr (), one_client\<lparr>written := (written one_client)(1 := written one_client 1 @
        [ResponseLine \<lparr>id_rsp = JStr ''req_1'', result_rsp = JUndefined,
           error_rsp = Some \<lparr>code = - 1, message = ''Unknown IPC method: nosuch/thing''\<rparr>\<rparr>])\<rparr>)
   \<and> handleMessage (\<lambda>text. Some failing_request) no_ide 0 1 [] one_client =
     (Inr (), one_client\<lparr>written := (written one_client)(1 := written one_client 1 @
        [ResponseLine \<lparr>id_rsp = JStr ''req_2'', result_rsp = JUndefined,
           error_rsp = Some \<lparr>code = - 1, message = ''Task not found: task_9_0''\<rparr>\<rparr>])\<rparr>)
   \<and> ''nosuch/thing'' \<notin> set known_methods
   \<and> not_found_text ''nosuch/thing'' = ''Unknown IPC method: nosuch/thing''"
proof -
  have d: "ascii unknown_line \<noteq> ascii roots_line"
    by (simp add: ascii_def unknown_line_def roots_line_def jstr_def)
  have p1: "parse_lines (ascii unknown_line) = Some unknown_request"
    using d by (simp add: parse_lines_def)
  have n1: "unknown_request \<noteq> JNull" "unknown_request \<noteq> JUndefined"
    by (simp_all add: unknown_request_def)
  have w: "\<not> write_throws one_client 1"
    by (simp add: one_client_def handleClientConnection_def new_server_def)
  have r1: "routeRequest no_ide 0 unknown_request one_client
              = (Inl (Error ''Unknown IPC method: nosuch/thing''), one_client)"
    by (simp add: routeRequest_def unknown_request_def startsWith_def)
  have p2: "(\<lambda>text. Some failing_request) ([] :: jsstring) = Some failing_request"
    by simp
  have n2: "failing_request \<noteq> JNull" "failing_request \<noteq> JUndefined"
    by (simp_all add: failing_request_def)
  have r2: "routeRequest no_ide 0 failing_request one_client
              = (Inl (Error ''Task not found: task_9_0''), one_client)"
    by (simp add: routeRequest_def failing_request_def startsWith_def handleTask_def
        one_client_def handleClientConnection_def new_server_def)
  have k: "''nosuch/thing'' \<notin> set known_methods"
    by (simp add: known_methods_def sketch_cases_def build_cases_def board_cases_def
        serial_cases_def library_cases_def)
  have t: "not_found_text ''nosuch/thing'' = ''Unknown IPC method: nosuch/thing''"
    by (simp add: not_found_text_def startsWith_def)
  show ?thesis
    using thrown_failure_response
        [where parse = parse_lines and msg = "ascii unknown_line" and meth = "''nosuch/thing''",
         OF p1 n1 w r1]
      thrown_failure_response
        [where parse = "\<lambda>text. Some failing_request" and msg = "[]"
           and meth = "''nosuch/thing''", OF p2 n2 w r2] k t
    by (simp add: unknown_request_def failing_request_def)
qed

text \<open>C4 as the claim states it fails: a request for a method that does not exist and a
  request whose handler fails (\<^verbatim>\<open>task/get\<close> for an unknown task) are both answered with an
  error of the same shape and the same code \<open>-1\<close>.\<close>

theorem not_found_and_handler_error_same_code:
  "last_error 1 (snd (dispatch no_ide 0 1 unknown_request one_client))
     = Some \<lparr>code = - 1, message = ''Unknown IPC method: nosuch/thing''\<rparr>
   \<and> last_error 1 (snd (dispatch no_ide 0 1 failing_request one_client))
     = Some \<lparr>code = - 1, message = ''Task not found: task_9_0''\<rparr>
   \<and> map_option code (last_error 1 (snd (dispatch no_ide 0 1 unknown_request one_client)))
     = map_option code (last_error 1 (snd (dispatch no_ide 0 1 failing_request one_client)))"
proof -
  have w: "\<not> write_throws one_client 1" "written one_client 1 = []"
    by (simp_all add: one_client_def handleClientConnection_def new_server_def)
  have r1: "routeRequest no_ide 0 unknown_request one_client
              = (Inl (Error ''Unknown IPC method: nosuch/thing''), one_client)"
    by (simp add: routeRequest_def unknown_request_def startsWith_def)
  have r2: "routeRequest no_ide 0 failing_request one_client
              = (Inl (Error ''Task not found: task_9_0''), one_client)"
    by (simp add: routeRequest_def failing_request_def startsWith_def handleTask_def
        one_client_def handleClientConnection_def new_server_def)
  have i: "get_prop unknown_request ''id'' = Inr (JStr ''req_1'')"
    "get_prop failing_request ''id'' = Inr (JStr ''req_2'')"
    by (simp_all add: unknown_request_def failing_request_def)
  show ?thesis
    using w
    by (simp add: dispatch_def r1 r2 i handleMessage_catch_def socket_write_def last_error_def
        error_response_def)
qed

section \<open>Properties of the framing\<close>

lemma split_newline_nonempty [simp]: "split_newline xs \<noteq> []"
  by (induction xs) (auto split: list.splits)

lemma split_newline_plain: "0x0A \<notin> set xs \<Longrightarrow> split_newline xs = [xs]"
  by (induction xs) auto

lemma split_newline_line:
  "0x0A \<notin> set xs \<Longrightarrow> split_newline (xs @ 0x0A # ys) = xs # split_newline ys"
  by (induction xs) auto

text \<open>Splitting a text in two pieces joins the last fragment of the first piece with the
  first fragment of the second.\<close>

lemma split_newline_append:
  "split_newline (xs @ ys) =
     butlast (split_newline xs) @
       (last (split_newline xs) @ hd (split_newline ys)) # tl (split_newline ys)"
proof (induction xs)
  case Nil
  show ?case by (cases "split_newline ys") (use split_newline_nonempty [of ys] in auto)
next
  case (Cons c cs)
  show ?case
  proof (cases "c = 0x0A")
    case True
    then show ?thesis using Cons.IH by simp
  next
    case False
    obtain f fs where s: "split_newline cs = f # fs"
      using split_newline_nonempty [of cs] by (cases "split_newline cs") auto
    obtain g gs where t: "split_newline (cs @ ys) = g # gs"
      using split_newline_nonempty [of "cs @ ys"] by (cases "split_newline (cs @ ys)") auto
    show ?thesis using False Cons.IH s t by (cases fs) auto
  qed
qed

lemma last_split_newline_plain: "0x0A \<notin> set (last (split_newline xs))"
proof (induction xs)
  case Nil
  show ?case by simp
next
  case (Cons c cs)
  obtain f fs where s: "split_newline cs = f # fs"
    using split_newline_nonempty [of cs] by (cases "split_newline cs") auto
  show ?case using Cons.IH s by (cases fs) auto
qed

lemma split_newline_resume:
  "split_newline (xs @ ys) =
     butlast (split_newline xs) @ split_newline (last (split_newline xs) @ ys)"
proof -
  have "split_newline (last (split_newline xs) @ ys) =
          (last (split_newline xs) @ hd (split_newline ys)) # tl (split_newline ys)"
    using split_newline_append [of "last (split_newline xs)" ys]
      split_newline_plain [OF last_split_newline_plain [of xs]]
    by simp
  then show ?thesis using split_newline_append [of xs ys] by simp
qed

text \<open>The listener on a text in two pieces does what it does on the whole text.\<close>

lemma on_text_append:
  "on_text buffer (t1 @ t2) =
     (case on_text buffer t1 of
        (buffer1, lines1) \<Rightarrow>
          (case on_text buffer1 t2 of (buffer2, lines2) \<Rightarrow> (buffer2, lines1 @ lines2)))"
proof -
  have "split_newline (buffer @ t1 @ t2) =
          butlast (split_newline (buffer @ t1)) @
            split_newline (last (split_newline (buffer @ t1)) @ t2)"
    using split_newline_resume [of "buffer @ t1" t2] by simp
  then show ?thesis
    by (simp add: on_text_def Let_def butlast_append)
qed

lemma on_text_buffer_plain: "0x0A \<notin> set (fst (on_text buffer t))"
  by (simp add: on_text_def Let_def last_split_newline_plain)

lemma on_text_empty: "0x0A \<notin> set buffer \<Longrightarrow> on_text buffer [] = (buffer, [])"
  by (simp add: on_text_def Let_def split_newline_plain)

text \<open>
  On text, the framing does not depend on the chunks: however a text is cut into
  pieces, the listener hands the same lines to \<^verbatim>\<open>handleMessage\<close> and keeps the same
  buffer as on the whole text.
\<close>

lemma feed_text_concat:
  "0x0A \<notin> set buffer \<Longrightarrow> feed_text buffer ts = on_text buffer (concat ts)"
proof (induction ts arbitrary: buffer)
  case Nil
  then show ?case by (simp add: on_text_empty)
next
  case (Cons t ts)
  obtain b1 l1 where o: "on_text buffer t = (b1, l1)" by (cases "on_text buffer t")
  have "0x0A \<notin> set b1" using on_text_buffer_plain [of buffer t] o by simp
  then have "feed_text b1 ts = on_text b1 (concat ts)" by (rule Cons.IH)
  then show ?case using o by (simp add: on_text_append)
qed

lemma feed_as_text: "feed buffer chunks = feed_text buffer (map toString chunks)"
  by (induction chunks arbitrary: buffer) (simp_all add: on_data_def)

lemma utf8_ascii:
  "\<forall>b\<in>set bs. unat b \<le> 0x7F \<Longrightarrow> utf8 0 0 0x80 0xBF bs = map ucast bs"
  by (induction bs) simp_all

text \<open>
  On bytes, the framing does not depend on the chunks as long as decoding does not:
  when the chunks decode to the pieces of the decoded stream, as they do when every byte
  is ASCII.
\<close>

lemma feed_concat:
  assumes "0x0A \<notin> set buffer"
    and "toString (concat chunks) = concat (map toString chunks)"
  shows "feed buffer chunks = on_data buffer (concat chunks)"
  using assms by (simp add: feed_as_text feed_text_concat on_data_def)

lemma feed_concat_ascii:
  assumes "\<forall>b\<in>set (concat chunks). unat b \<le> 0x7F"
  shows "feed [] chunks = on_data [] (concat chunks)"
proof -
  have "toString chunk = map ucast chunk" if "chunk \<in> set chunks" for chunk
    using assms that unfolding toString_def by (intro utf8_ascii) auto
  then have "concat (map toString chunks) = concat (map (map ucast) chunks)"
    by (induction chunks) auto
  moreover have "toString (concat chunks) = map ucast (concat chunks)"
    using assms unfolding toString_def by (rule utf8_ascii)
  ultimately show ?thesis
    by (intro feed_concat) (simp_all add: map_concat)
qed

text \<open>
  C5, at a failing input. The stream is the three bytes C3 A9 0A: the letter e with
  acute accent in UTF-8, and a newline. In one chunk the listener hands the line
  \<open>[0xE9]\<close> to \<^verbatim>\<open>handleMessage\<close>. Cut after the first byte, each chunk is decoded on its
  own by \<^verbatim>\<open>data.toString()\<close>, each half of the character becomes U+FFFD, and the line is
  \<open>[0xFFFD, 0xFFFD]\<close>.
\<close>

theorem split_character_changes_line:
  "concat [[0xC3], [0xA9, 0x0A]] = [0xC3, 0xA9, 0x0A :: byte]
   \<and> feed [] [[0xC3, 0xA9, 0x0A]] = ([], [[0xE9]])
   \<and> feed [] [[0xC3], [0xA9, 0x0A]] = ([], [[0xFFFD, 0xFFFD]])"
proof -
  have d: "toString [0xC3] = [0xFFFD]" "toString [0xA9, 0x0A] = [0xFFFD, 0x0A]"
    "toString [0xC3, 0xA9, 0x0A] = [0xE9, 0x0A]"
    by (simp_all add: toString_def units_def)
  have t: "trim [0xFFFD, 0xFFFD] \<noteq> []" "trim [0xE9] \<noteq> []"
    by (simp_all add: trim_def is_whitespace_def)
  show ?thesis
    by (simp add: on_data_def on_text_def d t)
qed

section \<open>Properties of a connection\<close>

lemma logged_invalid_frame:
  "written (logged_invalid s) = written s \<and> clients (logged_invalid s) = clients s
   \<and> write_throws (logged_invalid s) = write_throws s \<and> tasks (logged_invalid s) = tasks s"
  by (simp add: logged_invalid_def)

text \<open>
  C6. The chunk holds three lines: a request, a line that \<^verbatim>\<open>JSON.parse\<close> rejects, and
  another request. The listener routes the first request and writes its response, logs
  the invalid line on the console (a line of white space only is skipped before that)
  without writing anything to the socket, then routes the second request and writes its
  response; it returns normally, with an empty buffer.
\<close>

theorem invalid_line_between_requests:
  fixes parse ide clock socket s chunk l1 bad l2 r1 r2
  assumes "toString chunk = l1 @ [0x0A] @ bad @ [0x0A] @ l2 @ [0x0A]"
    and "0x0A \<notin> set l1" and "0x0A \<notin> set bad" and "0x0A \<notin> set l2"
    and "parse l1 = Some r1" and "parse bad = None" and "parse l2 = Some r2"
    and "trim l1 \<noteq> []" and "trim l2 \<noteq> []"
    and "r1 \<noteq> JNull" and "r1 \<noteq> JUndefined" and "r2 \<noteq> JNull" and "r2 \<noteq> JUndefined"
    and "\<not> write_throws s socket"
  defines "s1 \<equiv> answered socket r1 (routeRequest ide (clock 0) r1 s)"
  defines "s2 \<equiv> (if trim bad = [] then s1 else logged_invalid s1)"
  defines "s3 \<equiv> answered socket r2
                   (routeRequest ide (clock (if trim bad = [] then 1 else 2)) r2 s2)"
  shows "data_listener parse ide clock socket [] chunk s = ([], Inr (), s3)
       \<and> written s2 = written s1"
proof -
  have lines: "on_data [] chunk = ([], filter (\<lambda>line. trim line \<noteq> []) [l1, bad, l2])"
    using assms(1-4) by (simp add: on_data_def on_text_def split_newline_line)
  have w1: "\<not> write_throws s1 socket"
    unfolding s1_def using assms(14) routeRequest_frame [of ide "clock 0" r1 s]
    by (simp add: answered_frame)
  then have w2: "\<not> write_throws s2 socket"
    unfolding s2_def by (simp add: logged_invalid_frame)
  have h1: "handleMessage parse ide (clock 0) socket l1 s = (Inr (), s1)"
    unfolding s1_def using assms(5) dispatch_responds [OF assms(10,11,14)]
    by (simp add: handleMessage_def)
  have hb: "handleMessage parse ide (clock 1) socket bad s1 = (Inr (), logged_invalid s1)"
    using assms(6) by (simp add: handleMessage_def logged_invalid_def)
  have h2: "handleMessage parse ide (clock k) socket l2 s2
              = (Inr (), answered socket r2 (routeRequest ide (clock k) r2 s2))" for k
    using assms(7) dispatch_responds [OF assms(12,13) w2] by (simp add: handleMessage_def)
  have run: "handle_lines parse ide clock 0 socket
               (filter (\<lambda>line. trim line \<noteq> []) [l1, bad, l2]) s = (Inr (), s3)"
  proof (cases "trim bad = []")
    case True
    then show ?thesis
      using assms(8,9) h1 h2 [of 1] by (simp add: s3_def s2_def)
  next
    case False
    then show ?thesis
      using assms(8,9) h1 hb h2 [of 2] by (simp add: s3_def s2_def numeral_2_eq_2)
  qed
  have "written s2 = written s1"
    unfolding s2_def by (simp add: logged_invalid_frame)
  then show ?thesis
    using lines run by (simp add: data_listener_def)
qed

theorem invalid_line_between_requests_witness:
  "data_listener parse_lines no_ide (\<lambda>k. k) 1 [] three_lines one_client =
     ([], Inr (),
      one_client\<lparr>written := (written one_client)(1 :=
          [ResponseLine \<lparr>id_rsp = JStr ''req_3'', result_rsp = JArr [], error_rsp = None\<rparr>,
           ResponseLine \<lparr>id_rsp = JStr ''req_1'', result_rsp = JUndefined,
              error_rsp = Some \<lparr>code = - 1,
                                message = ''Unknown IPC method: nosuch/thing''\<rparr>\<rparr>]),
        console := [''[arduino-mcp] Invalid JSON:'']\<rparr>)"
proof -
  have c: "toString three_lines =
             ascii roots_line @ [0x0A] @ ascii broken_line @ [0x0A] @ ascii unknown_line @ [0x0A]"
    by (simp add: toString_def three_lines_def bytes_def ascii_def roots_line_def
        broken_line_def unknown_line_def jstr_def)
  have n: "0x0A \<notin> set (ascii roots_line)" "0x0A \<notin> set (ascii broken_line)"
    "0x0A \<notin> set (ascii unknown_line)"
    by (simp_all add: ascii_def roots_line_def broken_line_def unknown_line_def jstr_def)
  have d: "ascii unknown_line \<noteq> ascii roots_line" "ascii broken_line \<noteq> ascii roots_line"
    "ascii broken_line \<noteq> ascii unknown_line"
    by (simp_all add: ascii_def roots_line_def broken_line_def unknown_line_def jstr_def)
  have p: "parse_lines (ascii roots_line) = Some roots_request"
    "parse_lines (ascii broken_line) = None"
    "parse_lines (ascii unknown_line) = Some unknown_request"
    using d by (simp_all add: parse_lines_def)
  have t: "trim (ascii roots_line) \<noteq> []" "trim (ascii unknown_line) \<noteq> []"
    "trim (ascii broken_line) \<noteq> []"
    by (simp_all add: trim_def is_whitespace_def ascii_def roots_line_def unknown_line_def
        broken_line_def jstr_def)
  have v: "roots_request \<noteq> JNull" "roots_request \<noteq> JUndefined"
    "unknown_request \<noteq> JNull" "unknown_request \<noteq> JUndefined"
    by (simp_all add: roots_request_def unknown_request_def)
  have w: "\<not> write_throws one_client 1" "written one_client 1 = []" "console one_client = []"
    "currentSketch one_client = None"
    by (simp_all add: one_client_def handleClientConnection_def new_server_def)
  have r1: "routeRequest no_ide 0 roots_request s = (Inr (JArr []), s)"
    if "currentSketch s = None" for s
    using that by (simp add: routeRequest_def roots_request_def startsWith_def handleRoots_def)
  have r2: "routeRequest no_ide k unknown_request s
              = (Inl (Error ''Unknown IPC method: nosuch/thing''), s)" for k s
    by (simp add: routeRequest_def unknown_request_def startsWith_def)
  show ?thesis
    using invalid_line_between_requests
      [where parse = parse_lines and ide = no_ide and clock = "\<lambda>k. k" and socket = 1
         and s = one_client and chunk = three_lines,
       OF c n p(1,2,3) t(1,2) v w(1)]
      t(3) w(2,3) r1 [OF w(4)] r2
    by (simp add: answered_def logged_invalid_def response_for_def result_response_def
        error_response_def roots_request_def unknown_request_def)
qed

section \<open>The task table over time\<close>

text \<open>Task keys: the counter can be read back from a key, since the decimal digits of a
  number determine it and contain no underscore.\<close>

lemma digit_char_value: "d < 10 \<Longrightarrow> (of_char (digit_char d) :: nat) = 48 + d"
proof -
  assume "d < 10"
  then have "d = 0 \<or> d = 1 \<or> d = 2 \<or> d = 3 \<or> d = 4 \<or> d = 5 \<or> d = 6 \<or> d = 7 \<or> d = 8 \<or> d = 9"
    by arith
  then show ?thesis by (elim disjE) (simp_all add: digit_char_def)
qed

lemma digit_char_mod: "digit_char (d mod 10) = digit_char d"
  by (simp add: digit_char_def)

lemma digit_char_not_underscore: "digit_char d \<noteq> CHR ''_''"
proof -
  have "(of_char (digit_char (d mod 10)) :: nat) = 48 + d mod 10"
    by (rule digit_char_value) simp
  then have l: "(of_char (digit_char d) :: nat) < 58" by (simp add: digit_char_mod)
  show ?thesis
  proof
    assume e: "digit_char d = CHR ''_''"
    have "(of_char (CHR ''_'') :: nat) = 95" by simp
    then have "(of_char (digit_char d) :: nat) = 95" by (simp only: e)
    with l show False by linarith
  qed
qed

lemma digit_char_inj:
  assumes "a < 10" and "b < 10" and "digit_char a = digit_char b"
  shows "a = b"
proof -
  have "(of_char (digit_char a) :: nat) = 48 + a" using assms(1) by (rule digit_char_value)
  moreover have "(of_char (digit_char b) :: nat) = 48 + b" using assms(2) by (rule digit_char_value)
  moreover have "(of_char (digit_char a) :: nat) = of_char (digit_char b)"
    by (simp only: assms(3))
  ultimately show ?thesis by linarith
qed

lemma digits_small: "n < 10 \<Longrightarrow> digits n = [digit_char n]"
  by (subst digits.simps) simp

lemma digits_large: "\<not> n < 10 \<Longrightarrow> digits n = digits (n div 10) @ [digit_char (n mod 10)]"
  by (subst digits.simps) simp

lemma digits_nonempty: "digits n \<noteq> []"
  by (cases "n < 10") (simp_all add: digits_small digits_large)

lemma digits_inj: "digits m = digits n \<Longrightarrow> m = n"
proof (induction m arbitrary: n rule: digits.induct)
  case (1 m)
  show ?case
  proof (cases "m < 10")
    case True
    show ?thesis
    proof (cases "n < 10")
      case True
      with \<open>m < 10\<close> "1.prems" show ?thesis
        by (simp add: digits_small digit_char_inj)
    next
      case False
      with \<open>m < 10\<close> "1.prems" digits_nonempty [of "n div 10"] show ?thesis
        by (simp add: digits_small digits_large)
    qed
  next
    case False
    show ?thesis
    proof (cases "n < 10")
      case True
      with \<open>\<not> m < 10\<close> "1.prems" digits_nonempty [of "m div 10"] show ?thesis
        by (simp add: digits_small digits_large)
    next
      case n: False
      from False n "1.prems"
      have e: "digits (m div 10) = digits (n div 10)" "digit_char (m mod 10) = digit_char (n mod 10)"
        by (simp_all add: digits_large)
      have "m div 10 = n div 10" using "1.IH" [OF False e(1)] .
      moreover have "m mod 10 = n mod 10" using e(2) by (intro digit_char_inj) simp_all
      ultimately show ?thesis by (metis div_mult_mod_eq)
    qed
  qed
qed

lemma underscore_not_in_digits: "CHR ''_'' \<notin> set (digits n)"
proof (induction n rule: digits.induct)
  case (1 n)
  show ?case
  proof (cases "n < 10")
    case True
    then show ?thesis using digit_char_not_underscore [of n] by (simp add: digits_small)
  next
    case False
    then show ?thesis
      using 1 digit_char_not_underscore [of "n mod 10"] by (simp add: digits_large)
  qed
qed

lemma split_at_first:
  assumes "c \<notin> set a" and "c \<notin> set b" and "a @ c # r = b @ c # r'"
  shows "a = b"
  using assms
proof (induction a arbitrary: b)
  case Nil
  then show ?case by (cases b) auto
next
  case (Cons x a)
  then show ?case by (cases b) auto
qed

lemma task_key_counter:
  assumes "task_key m x = task_key n y"
  shows "m = n"
proof -
  have "digits m @ CHR ''_'' # digits x = digits n @ CHR ''_'' # digits y"
    using assms by (simp add: task_key_def)
  then have "digits m = digits n"
    using split_at_first [OF underscore_not_in_digits underscore_not_in_digits] by blast
  then show ?thesis by (rule digits_inj)
qed

lemma same_tasks_refl: "same_tasks s s"
  by (simp add: same_tasks_def)

lemma same_tasks_trans: "same_tasks s s1 \<Longrightarrow> same_tasks s1 s2 \<Longrightarrow> same_tasks s s2"
  by (simp add: same_tasks_def)

lemma emitProgress_same_tasks: "same_tasks s (emitProgress k p m s)"
  by (simp add: same_tasks_def emitProgress_def broadcast_def Let_def broadcast_loop_frame)

lemma emitProgress_fields:
  "currentSketch (emitProgress k p m s) = currentSketch s
   \<and> coreService (emitProgress k p m s) = coreService s"
  by (simp add: emitProgress_def broadcast_def Let_def broadcast_loop_frame)

lemma runCompileTask_same_tasks: "same_tasks s (snd (runCompileTask t k s))"
  unfolding runCompileTask_def Let_def
  by (auto split: sum.splits
      intro: emitProgress_same_tasks same_tasks_trans [OF emitProgress_same_tasks emitProgress_same_tasks])

lemma runUploadTask_same_tasks: "same_tasks s (snd (runUploadTask t k s))"
  unfolding runUploadTask_def Let_def
  by (auto split: sum.splits
      intro: emitProgress_same_tasks same_tasks_trans [OF emitProgress_same_tasks emitProgress_same_tasks]
        same_tasks_trans [OF emitProgress_same_tasks
          same_tasks_trans [OF emitProgress_same_tasks emitProgress_same_tasks]])

lemma task_assign_present:
  "tasks s k = Some t \<Longrightarrow> task_assign k f s = s\<lparr>tasks := (tasks s)(k \<mapsto> f t)\<rparr>"
  by (simp add: task_assign_def)


lemma runTask_catch_present:
  "tasks s k = Some t \<Longrightarrow>
   runTask_catch k e s = s\<lparr>tasks := (tasks s)(k \<mapsto> t\<lparr>status := failed, error := Some (errMessage e)\<rparr>)\<rparr>"
  by (simp add: runTask_catch_def task_assign_def)

text \<open>What the start of \<^verbatim>\<open>runTask\<close> does to a task of the table: it ends \<^verbatim>\<open>failed\<close>, or it is
  \<^verbatim>\<open>running\<close> and suspended.\<close>

lemma runTask_effect:
  assumes "tasks s k = Some t"
  shows "\<exists>t'. tasks (runTask k s) = (tasks s)(k \<mapsto> t')
           \<and> taskCounter (runTask k s) = taskCounter s
           \<and> immediates (runTask k s) = immediates s
           \<and> ((status t' = running \<and> (\<exists>a. suspended (runTask k s) = suspended s @ [(k, a)]))
               \<or> (status t' = failed \<and> suspended (runTask k s) = suspended s))"
proof -
  define s1 where "s1 = task_assign k (\<lambda>t. t\<lparr>status := running\<rparr>) s"
  define s2 where "s2 = emitProgress k 0 ''Starting...'' s1"
  have s1: "s1 = s\<lparr>tasks := (tasks s)(k \<mapsto> t\<lparr>status := running\<rparr>)\<rparr>"
    unfolding s1_def using assms by (rule task_assign_present)
  have s2: "same_tasks s1 s2"
    unfolding s2_def by (rule emitProgress_same_tasks)
  have after: "\<exists>t'. tasks s' = (tasks s)(k \<mapsto> t') \<and> taskCounter s' = taskCounter s
           \<and> immediates s' = immediates s
           \<and> ((status t' = running \<and> (\<exists>a. suspended s' = suspended s @ [(k, a)]))
               \<or> (status t' = failed \<and> suspended s' = suspended s))"
    if same: "same_tasks s2 s3"
      and s': "(\<exists>e. s' = runTask_catch k e s3) \<or> (\<exists>a. s' = s3\<lparr>suspended := suspended s3 @ [(k, a)]\<rparr>)"
    for s3 s'
  proof -
    have f: "tasks s3 = (tasks s)(k \<mapsto> t\<lparr>status := running\<rparr>)" "taskCounter s3 = taskCounter s"
      "immediates s3 = immediates s" "suspended s3 = suspended s"
      using same s2 s1 by (simp_all add: same_tasks_def)
    from s' show ?thesis
    proof
      assume "\<exists>e. s' = runTask_catch k e s3"
      then obtain e where "s' = runTask_catch k e s3" ..
      then have "s' = s3\<lparr>tasks := (tasks s3)(k \<mapsto>
                        t\<lparr>status := running\<rparr>\<lparr>status := failed, error := Some (errMessage e)\<rparr>)\<rparr>"
        using runTask_catch_present [of s3 k "t\<lparr>status := running\<rparr>" e] f(1) by simp
      then show ?thesis using f by auto
    next
      assume "\<exists>a. s' = s3\<lparr>suspended := suspended s3 @ [(k, a)]\<rparr>"
      then show ?thesis using f by auto
    qed
  qed
  show ?thesis
  proof (cases "tool t = JStr ''arduino_compile''")
    case True
    obtain r s3 where r: "runCompileTask t k s2 = (r, s3)" by (cases "runCompileTask t k s2")
    have same: "same_tasks s2 s3" using runCompileTask_same_tasks [of s2 t k] r by simp
    have run: "runTask k s = (case r of Inl e \<Rightarrow> runTask_catch k e s3
                 | Inr u \<Rightarrow> s3\<lparr>suspended := suspended s3 @ [(k, AwaitCompile)]\<rparr>)"
      using assms True r by (simp add: runTask_def Let_def s1_def s2_def)
    show ?thesis by (rule after [OF same]) (cases r; auto simp add: run)
  next
    case False
    show ?thesis
    proof (cases "tool t = JStr ''arduino_upload''")
      case True
      obtain r s3 where r: "runUploadTask t k s2 = (r, s3)" by (cases "runUploadTask t k s2")
      have same: "same_tasks s2 s3" using runUploadTask_same_tasks [of s2 t k] r by simp
      have run: "runTask k s = (case r of Inl e \<Rightarrow> runTask_catch k e s3
                   | Inr u \<Rightarrow> s3\<lparr>suspended := suspended s3 @ [(k, AwaitUpload)]\<rparr>)"
        using assms True False r by (simp add: runTask_def Let_def s1_def s2_def)
      show ?thesis by (rule after [OF same]) (cases r; auto simp add: run)
    next
      case u: False
      have run: "runTask k s = runTask_catch k
                   (case js_string (tool t) of
                      Inl e \<Rightarrow> e
                    | Inr text \<Rightarrow> Error (''Task not supported for tool: '' @ text)) s2"
        using assms False u by (simp add: runTask_def Let_def s1_def s2_def)
      show ?thesis by (rule after [OF same_tasks_refl]) (auto simp add: run)
    qed
  qed
qed

lemma runTask_absent: "tasks s k = None \<Longrightarrow> runTask k s = s"
  by (simp add: runTask_def)

text \<open>What the rest of a suspended \<^verbatim>\<open>runTask\<close> does to a task of the table: it ends
  \<^verbatim>\<open>completed\<close> or \<^verbatim>\<open>failed\<close>.\<close>

lemma runTask_resume_effect:
  assumes "tasks s k = Some t"
  shows "\<exists>t'. tasks (runTask_resume k a out s) = (tasks s)(k \<mapsto> t')
           \<and> (status t' = completed \<or> status t' = failed)
           \<and> taskCounter (runTask_resume k a out s) = taskCounter s
           \<and> immediates (runTask_resume k a out s) = immediates s
           \<and> suspended (runTask_resume k a out s) = suspended s"
proof -
  have unsuccessful: "\<exists>t'. tasks (runTask_catch k e s) = (tasks s)(k \<mapsto> t')
           \<and> (status t' = completed \<or> status t' = failed)
           \<and> taskCounter (runTask_catch k e s) = taskCounter s
           \<and> immediates (runTask_catch k e s) = immediates s
           \<and> suspended (runTask_catch k e s) = suspended s" for e
    using runTask_catch_present [OF assms, of e]
    by (intro exI [of _ "t\<lparr>status := failed, error := Some (errMessage e)\<rparr>"]) simp
  have fin: "\<exists>t'. tasks (emitProgress k p m
                    (task_assign k (\<lambda>t. t\<lparr>status := completed\<rparr>)
                       (task_assign k (\<lambda>t. t\<lparr>result := v\<rparr>) s))) = (tasks s)(k \<mapsto> t')
           \<and> (status t' = completed \<or> status t' = failed)
           \<and> taskCounter (emitProgress k p m
                    (task_assign k (\<lambda>t. t\<lparr>status := completed\<rparr>)
                       (task_assign k (\<lambda>t. t\<lparr>result := v\<rparr>) s))) = taskCounter s
           \<and> immediates (emitProgress k p m
                    (task_assign k (\<lambda>t. t\<lparr>status := completed\<rparr>)
                       (task_assign k (\<lambda>t. t\<lparr>result := v\<rparr>) s))) = immediates s
           \<and> suspended (emitProgress k p m
                    (task_assign k (\<lambda>t. t\<lparr>status := completed\<rparr>)
                       (task_assign k (\<lambda>t. t\<lparr>result := v\<rparr>) s))) = suspended s" for p m v
    using assms
      emitProgress_same_tasks [of "task_assign k (\<lambda>t. t\<lparr>status := completed\<rparr>)
                       (task_assign k (\<lambda>t. t\<lparr>result := v\<rparr>) s)" k p m]
    by (intro exI [of _ "t\<lparr>result := v, status := completed\<rparr>"])
       (simp add: same_tasks_def task_assign_def)
  show ?thesis
  proof (cases a)
    case AwaitCompile
    show ?thesis
    proof (cases out)
      case (Resolved r)
      then show ?thesis
        using AwaitCompile fin by (simp add: runTask_resume_def runCompileTask_resume_def Let_def)
    next
      case (Rejected e)
      then show ?thesis
        using AwaitCompile unsuccessful by (simp add: runTask_resume_def runCompileTask_resume_def)
    qed
  next
    case AwaitUpload
    show ?thesis
    proof (cases out)
      case (Resolved r)
      show ?thesis
      proof (cases "get_prop r ''portAfterUpload''")
        case (Inl e)
        then show ?thesis
          using AwaitUpload Resolved unsuccessful
          by (simp add: runTask_resume_def runUploadTask_resume_def)
      next
        case (Inr p)
        then show ?thesis
          using AwaitUpload Resolved fin
          by (simp add: runTask_resume_def runUploadTask_resume_def Let_def)
      qed
    next
      case (Rejected e)
      then show ?thesis
        using AwaitUpload unsuccessful by (simp add: runTask_resume_def runUploadTask_resume_def)
    qed
  qed
qed


lemma consistent_same_tasks: "same_tasks s s' \<Longrightarrow> consistent s \<Longrightarrow> consistent s'"
  by (simp add: same_tasks_def consistent_def)

lemma consistent_keys:
  "consistent s \<Longrightarrow> tasks s k = Some t \<Longrightarrow> \<exists>n x. k = task_key n x \<and> n \<le> taskCounter s"
  unfolding consistent_def by blast

lemma consistent_scheduled:
  "consistent s \<Longrightarrow> k \<in> set (immediates s) \<Longrightarrow>
   \<exists>t. tasks s k = Some t \<and> (status t = pending \<or> status t = cancelled)"
  unfolding consistent_def by blast

lemma consistent_suspended:
  "consistent s \<Longrightarrow> k \<in> set (map fst (suspended s)) \<Longrightarrow>
   \<exists>t. tasks s k = Some t \<and> (status t = running \<or> status t = cancelled)"
  unfolding consistent_def by blast

lemma consistent_distinct:
  "consistent s \<Longrightarrow> distinct (immediates s @ map fst (suspended s))"
  unfolding consistent_def by blast

lemma consistentI:
  assumes "\<And>k t. tasks s k = Some t \<Longrightarrow> \<exists>n x. k = task_key n x \<and> n \<le> taskCounter s"
    and "distinct (immediates s @ map fst (suspended s))"
    and "\<And>k. k \<in> set (immediates s) \<Longrightarrow>
           \<exists>t. tasks s k = Some t \<and> (status t = pending \<or> status t = cancelled)"
    and "\<And>k. k \<in> set (map fst (suspended s)) \<Longrightarrow>
           \<exists>t. tasks s k = Some t \<and> (status t = running \<or> status t = cancelled)"
  shows "consistent s"
  unfolding consistent_def using assms by blast

text \<open>The key that \<^verbatim>\<open>task/create\<close> makes from the next counter value is not in the table.\<close>

lemma next_key_fresh:
  assumes "consistent s"
  shows "tasks s (task_key (taskCounter s + 1) now) = None"
proof (rule ccontr)
  assume "tasks s (task_key (taskCounter s + 1) now) \<noteq> None"
  then obtain t where "tasks s (task_key (taskCounter s + 1) now) = Some t"
    by auto
  then obtain n x where k: "task_key (taskCounter s + 1) now = task_key n x"
    and n: "n \<le> taskCounter s"
    using consistent_keys [OF assms] by blast
  have "taskCounter s + 1 = n" using k by (rule task_key_counter)
  with n show False by simp
qed

text \<open>A status written over a task keeps the table consistent when it fits where the
  task is: queued, suspended or neither.\<close>

lemma consistent_update:
  assumes c: "consistent s" and t: "tasks s k = Some t"
    and i: "k \<in> set (immediates s) \<Longrightarrow> status t' = pending \<or> status t' = cancelled"
    and u: "k \<in> set (map fst (suspended s)) \<Longrightarrow> status t' = running \<or> status t' = cancelled"
  shows "consistent (s\<lparr>tasks := (tasks s)(k \<mapsto> t')\<rparr>)"
proof (rule consistentI)
  fix k' t''
  assume "tasks (s\<lparr>tasks := (tasks s)(k \<mapsto> t')\<rparr>) k' = Some t''"
  then have "\<exists>t. tasks s k' = Some t" using t by (cases "k' = k") simp_all
  then show "\<exists>n x. k' = task_key n x \<and> n \<le> taskCounter (s\<lparr>tasks := (tasks s)(k \<mapsto> t')\<rparr>)"
    using consistent_keys [OF c] by auto
next
  show "distinct (immediates (s\<lparr>tasks := (tasks s)(k \<mapsto> t')\<rparr>) @
                  map fst (suspended (s\<lparr>tasks := (tasks s)(k \<mapsto> t')\<rparr>)))"
    using consistent_distinct [OF c] by simp
next
  fix k'
  assume "k' \<in> set (immediates (s\<lparr>tasks := (tasks s)(k \<mapsto> t')\<rparr>))"
  then have m: "k' \<in> set (immediates s)" by simp
  show "\<exists>t. tasks (s\<lparr>tasks := (tasks s)(k \<mapsto> t')\<rparr>) k' = Some t
            \<and> (status t = pending \<or> status t = cancelled)"
    using consistent_scheduled [OF c m] i m by (cases "k' = k") simp_all
next
  fix k'
  assume "k' \<in> set (map fst (suspended (s\<lparr>tasks := (tasks s)(k \<mapsto> t')\<rparr>)))"
  then have m: "k' \<in> set (map fst (suspended s))" by simp
  show "\<exists>t. tasks (s\<lparr>tasks := (tasks s)(k \<mapsto> t')\<rparr>) k' = Some t
            \<and> (status t = running \<or> status t = cancelled)"
    using consistent_suspended [OF c m] u m by (cases "k' = k") simp_all
qed

lemma consistent_cancel:
  assumes "consistent s" and "tasks s k = Some t"
  shows "consistent (s\<lparr>tasks := (tasks s)(k \<mapsto> t\<lparr>status := cancelled, error := e\<rparr>)\<rparr>)"
  using assms by (intro consistent_update) simp_all

lemma consistent_counter:
  assumes c: "consistent s"
  shows "consistent (s\<lparr>taskCounter := taskCounter s + 1\<rparr>)"
proof (rule consistentI)
  fix k t
  assume "tasks (s\<lparr>taskCounter := taskCounter s + 1\<rparr>) k = Some t"
  then have "tasks s k = Some t" by simp
  then obtain n x where "k = task_key n x" "n \<le> taskCounter s"
    using consistent_keys [OF c] by blast
  then show "\<exists>n x. k = task_key n x \<and> n \<le> taskCounter (s\<lparr>taskCounter := taskCounter s + 1\<rparr>)"
    by (intro exI [of _ n] exI [of _ x]) simp
next
  show "distinct (immediates (s\<lparr>taskCounter := taskCounter s + 1\<rparr>) @
                  map fst (suspended (s\<lparr>taskCounter := taskCounter s + 1\<rparr>)))"
    using consistent_distinct [OF c] by simp
next
  fix k
  assume "k \<in> set (immediates (s\<lparr>taskCounter := taskCounter s + 1\<rparr>))"
  then show "\<exists>t. tasks (s\<lparr>taskCounter := taskCounter s + 1\<rparr>) k = Some t
            \<and> (status t = pending \<or> status t = cancelled)"
    using consistent_scheduled [OF c, of k] by simp
next
  fix k
  assume "k \<in> set (map fst (suspended (s\<lparr>taskCounter := taskCounter s + 1\<rparr>)))"
  then show "\<exists>t. tasks (s\<lparr>taskCounter := taskCounter s + 1\<rparr>) k = Some t
            \<and> (status t = running \<or> status t = cancelled)"
    using consistent_suspended [OF c, of k] by simp
qed


lemma consistent_create:
  fixes s now t
  assumes c: "consistent s" and p: "status t = pending"
  defines "k \<equiv> task_key (taskCounter s + 1) now"
  defines "s' \<equiv> s\<lparr>taskCounter := taskCounter s + 1, tasks := (tasks s)(k \<mapsto> t),
                  immediates := immediates s @ [k]\<rparr>"
  shows "consistent s'"
proof (rule consistentI)
  have fresh: "tasks s k = None" unfolding k_def using c by (rule next_key_fresh)
  have ni: "k \<notin> set (immediates s)" using consistent_scheduled [OF c, of k] fresh by auto
  have ns: "k \<notin> set (map fst (suspended s))" using consistent_suspended [OF c, of k] fresh by auto
  {
    fix k' t'
    assume a: "tasks s' k' = Some t'"
    show "\<exists>n x. k' = task_key n x \<and> n \<le> taskCounter s'"
    proof (cases "k' = k")
      case True
      then show ?thesis
        by (intro exI [of _ "taskCounter s + 1"] exI [of _ now]) (simp add: k_def s'_def)
    next
      case False
      then have "tasks s k' = Some t'" using a by (simp add: s'_def)
      then obtain n x where "k' = task_key n x" "n \<le> taskCounter s"
        using consistent_keys [OF c] by blast
      then show ?thesis by (intro exI [of _ n] exI [of _ x]) (simp add: s'_def)
    qed
  }
  show "distinct (immediates s' @ map fst (suspended s'))"
    using consistent_distinct [OF c] ni ns by (simp add: s'_def)
  {
    fix k'
    assume "k' \<in> set (immediates s')"
    then have "k' = k \<or> k' \<in> set (immediates s)" by (auto simp add: s'_def)
    then show "\<exists>t. tasks s' k' = Some t \<and> (status t = pending \<or> status t = cancelled)"
    proof
      assume "k' = k"
      then show ?thesis using p by (simp add: s'_def)
    next
      assume m: "k' \<in> set (immediates s)"
      then have "k' \<noteq> k" using ni by auto
      then show ?thesis using consistent_scheduled [OF c m] by (simp add: s'_def)
    qed
  }
  {
    fix k'
    assume "k' \<in> set (map fst (suspended s'))"
    then have m: "k' \<in> set (map fst (suspended s))" by (simp add: s'_def)
    then have "k' \<noteq> k" using ns by auto
    then show "\<exists>t. tasks s' k' = Some t \<and> (status t = running \<or> status t = cancelled)"
      using consistent_suspended [OF c m] by (simp add: s'_def)
  }
qed

text \<open>What \<^verbatim>\<open>handleTask\<close> does to the task table.\<close>

lemma handleTask_effect:
  fixes now mth params s
  defines "s' \<equiv> snd (handleTask now mth params s)"
  defines "key \<equiv> task_key (taskCounter s + 1) now"
  shows "same_tasks s s'
       \<or> (\<exists>k t. tasks s k = Some t \<and> (status t = pending \<or> status t = running)
              \<and> s' = s\<lparr>tasks := (tasks s)(k \<mapsto> t\<lparr>status := cancelled,
                                                         error := Some ''Cancelled by user''\<rparr>)\<rparr>)
       \<or> s' = s\<lparr>taskCounter := taskCounter s + 1\<rparr>
       \<or> (\<exists>t. status t = pending
              \<and> s' = s\<lparr>taskCounter := taskCounter s + 1, tasks := (tasks s)(key \<mapsto> t),
                       immediates := immediates s @ [key]\<rparr>)"
    (is "?same \<or> ?cancel \<or> ?count \<or> ?create")
proof (cases "mth = ''task/create''")
  case create: True
  show ?thesis
  proof (cases "get_prop params ''tool''")
    case (Inl e)
    then have ?count using create by (simp add: s'_def handleTask_def Let_def)
    then show ?thesis by (intro disjI2 disjI1)
  next
    case tl: (Inr tool_v)
    show ?thesis
    proof (cases "get_prop params ''arguments''")
      case (Inl e)
      then have ?count using create tl by (simp add: s'_def handleTask_def Let_def)
      then show ?thesis by (intro disjI2 disjI1)
    next
      case (Inr args)
      define t where "t = \<lparr>id_task = key, status = pending, tool = tool_v, arguments = args,
         result = JUndefined, error = None, progress = None, progressMessage = None\<rparr>"
      have "s' = s\<lparr>taskCounter := taskCounter s + 1, tasks := (tasks s)(key \<mapsto> t),
                       immediates := immediates s @ [key]\<rparr>"
        using create tl Inr by (simp add: s'_def handleTask_def Let_def key_def t_def)
      moreover have "status t = pending" by (simp add: t_def)
      ultimately have ?create by (intro exI [of _ t] conjI)
      then show ?thesis by (intro disjI2)
    qed
  qed
next
  case not_create: False
  show ?thesis
  proof (cases "mth = ''task/get''")
    case True
    then have ?same
      by (simp add: s'_def handleTask_def same_tasks_def split: sum.splits option.splits)
    then show ?thesis by (rule disjI1)
  next
    case not_get: False
    show ?thesis
    proof (cases "mth = ''task/cancel''")
      case cancel: True
      show ?thesis
      proof (cases "get_prop params ''taskId''")
        case (Inl e)
        then have ?same using cancel by (simp add: s'_def handleTask_def same_tasks_def)
        then show ?thesis by (rule disjI1)
      next
        case (Inr taskId)
        show ?thesis
        proof (cases "tasks_get s taskId")
          case None
          then have ?same using cancel Inr by (simp add: s'_def handleTask_def same_tasks_def)
          then show ?thesis by (rule disjI1)
        next
          case (Some t)
          then obtain k where k: "taskId = JStr k" "tasks s k = Some t"
            by (cases taskId) simp_all
          show ?thesis
          proof (cases "status t = pending \<or> status t = running")
            case True
            then have "s' = s\<lparr>tasks := (tasks s)(k \<mapsto> t\<lparr>status := cancelled,
                                                         error := Some ''Cancelled by user''\<rparr>)\<rparr>"
              using cancel Inr k by (simp add: s'_def handleTask_def)
            with k(2) True have ?cancel by (intro exI [of _ k] exI [of _ t] conjI)
            then show ?thesis by (intro disjI2 disjI1)
          next
            case False
            then have ?same using cancel Inr k by (simp add: s'_def handleTask_def same_tasks_def)
            then show ?thesis by (rule disjI1)
          qed
        qed
      qed
    next
      case False
      then have ?same using not_create not_get by (simp add: s'_def handleTask_def same_tasks_def)
      then show ?thesis by (rule disjI1)
    qed
  qed
qed


text \<open>A task leaves the queue or the suspended executions, or moves from the one to the
  other, with a status that fits.\<close>

lemma consistent_moved:
  assumes c: "consistent s"
    and present: "tasks s k = Some t"
    and tasks': "tasks s' = (tasks s)(k \<mapsto> t')"
    and counter': "taskCounter s' = taskCounter s"
    and imm: "set (immediates s') \<subseteq> set (immediates s) - {k}"
    and sus: "set (map fst (suspended s')) \<subseteq> set (map fst (suspended s)) \<union> {k}"
    and fits: "k \<in> set (map fst (suspended s')) \<Longrightarrow> status t' = running \<or> status t' = cancelled"
    and dist: "distinct (immediates s' @ map fst (suspended s'))"
  shows "consistent s'"
proof (rule consistentI)
  fix k' t''
  assume "tasks s' k' = Some t''"
  then have "\<exists>t. tasks s k' = Some t" using present tasks' by (cases "k' = k") simp_all
  then show "\<exists>n x. k' = task_key n x \<and> n \<le> taskCounter s'"
    using consistent_keys [OF c] counter' by auto
next
  show "distinct (immediates s' @ map fst (suspended s'))" by (rule dist)
next
  fix k'
  assume "k' \<in> set (immediates s')"
  then have m: "k' \<in> set (immediates s)" and n: "k' \<noteq> k" using imm by auto
  show "\<exists>t. tasks s' k' = Some t \<and> (status t = pending \<or> status t = cancelled)"
    using consistent_scheduled [OF c m] n tasks' by simp
next
  fix k'
  assume a: "k' \<in> set (map fst (suspended s'))"
  show "\<exists>t. tasks s' k' = Some t \<and> (status t = running \<or> status t = cancelled)"
  proof (cases "k' = k")
    case True
    then show ?thesis using fits a tasks' by simp
  next
    case False
    then have m: "k' \<in> set (map fst (suspended s))" using a sus by auto
    show ?thesis using consistent_suspended [OF c m] False tasks' by simp
  qed
qed

text \<open>
  Every event keeps the task table consistent, and leaves a task that is \<^verbatim>\<open>completed\<close>
  or \<^verbatim>\<open>failed\<close> as it is.
\<close>

lemma step_keeps:
  assumes c: "consistent s"
  shows "consistent (step a s)
       \<and> (\<forall>k0 t0. tasks s k0 = Some t0 \<and> (status t0 = completed \<or> status t0 = failed)
              \<longrightarrow> tasks (step a s) k0 = Some t0)"
proof (cases a)
  case (Request now mth params)
  define s' where "s' = snd (handleTask now mth params s)"
  have st: "step a s = s'" using Request by (simp add: s'_def)
  consider (same) "same_tasks s s'"
    | (cancel) k t where "tasks s k = Some t" "status t = pending \<or> status t = running"
        "s' = s\<lparr>tasks := (tasks s)(k \<mapsto> t\<lparr>status := cancelled,
                                                error := Some ''Cancelled by user''\<rparr>)\<rparr>"
    | (count) "s' = s\<lparr>taskCounter := taskCounter s + 1\<rparr>"
    | (create) t where "status t = pending"
        "s' = s\<lparr>taskCounter := taskCounter s + 1,
                 tasks := (tasks s)(task_key (taskCounter s + 1) now \<mapsto> t),
                 immediates := immediates s @ [task_key (taskCounter s + 1) now]\<rparr>"
    using handleTask_effect [of s now mth params] unfolding s'_def by blast
  then show ?thesis
  proof cases
    case same
    then show ?thesis
      unfolding st using c consistent_same_tasks [OF same c] by (simp add: same_tasks_def)
  next
    case cancel
    have "consistent s'" unfolding cancel(3) using c cancel(1) by (rule consistent_cancel)
    moreover have "tasks s' k0 = Some t0"
      if "tasks s k0 = Some t0" "status t0 = completed \<or> status t0 = failed" for k0 t0
    proof -
      have "k0 \<noteq> k" using that cancel(1,2) by auto
      then show ?thesis using that(1) by (simp add: cancel(3))
    qed
    ultimately show ?thesis unfolding st by blast
  next
    case count
    have "consistent s'" unfolding count using c by (rule consistent_counter)
    then show ?thesis unfolding st by (simp add: count)
  next
    case create
    have "consistent s'" unfolding create(2) using c create(1) by (rule consistent_create)
    moreover have "tasks s' k0 = Some t0" if "tasks s k0 = Some t0" for k0 t0
    proof -
      have "k0 \<noteq> task_key (taskCounter s + 1) now"
        using that next_key_fresh [OF c, of now] by auto
      then show ?thesis using that by (simp add: create(2))
    qed
    ultimately show ?thesis unfolding st by blast
  qed
next
  case Immediate
  show ?thesis
  proof (cases "immediates s")
    case Nil
    then show ?thesis using Immediate c by simp
  next
    case (Cons k rest)
    define s0 where "s0 = s\<lparr>immediates := rest\<rparr>"
    have st: "step a s = runTask k s0" using Immediate Cons by (simp add: s0_def)
    have m: "k \<in> set (immediates s)" using Cons by simp
    obtain t where t: "tasks s k = Some t" "status t = pending \<or> status t = cancelled"
      using consistent_scheduled [OF c m] by blast
    have d: "distinct (k # rest @ map fst (suspended s))"
      using consistent_distinct [OF c] Cons by simp
    have t0: "tasks s0 k = Some t" using t(1) by (simp add: s0_def)
    obtain t' where e: "tasks (runTask k s0) = (tasks s)(k \<mapsto> t')"
      "taskCounter (runTask k s0) = taskCounter s" "immediates (runTask k s0) = rest"
      "(status t' = running \<and> (\<exists>a. suspended (runTask k s0) = suspended s @ [(k, a)]))
       \<or> (status t' = failed \<and> suspended (runTask k s0) = suspended s)"
      using runTask_effect [OF t0] by (auto simp add: s0_def)
    have "consistent (runTask k s0)"
    proof (rule consistent_moved [OF c t(1) e(1) e(2)])
      show "set (immediates (runTask k s0)) \<subseteq> set (immediates s) - {k}"
        using d Cons by (auto simp add: e(3))
      show "set (map fst (suspended (runTask k s0))) \<subseteq> set (map fst (suspended s)) \<union> {k}"
        using e(4) by auto
      show "status t' = running \<or> status t' = cancelled"
        if "k \<in> set (map fst (suspended (runTask k s0)))"
        using e(4) that d by auto
      show "distinct (immediates (runTask k s0) @ map fst (suspended (runTask k s0)))"
        using e(4) d by (fastforce simp add: e(3))
    qed
    moreover have "tasks (runTask k s0) k0 = Some t0"
      if "tasks s k0 = Some t0" "status t0 = completed \<or> status t0 = failed" for k0 t0
    proof -
      have "k0 \<noteq> k" using that t by auto
      then show ?thesis using that(1) by (simp add: e(1))
    qed
    ultimately show ?thesis unfolding st by blast
  qed
next
  case (Settle k out)
  show ?thesis
  proof (cases "map_of (suspended s) k")
    case None
    then show ?thesis using Settle c by simp
  next
    case (Some a')
    define s0 where "s0 = s\<lparr>suspended := filter (\<lambda>p. fst p \<noteq> k) (suspended s)\<rparr>"
    have st: "step a s = runTask_resume k a' out s0" using Settle Some by (simp add: s0_def)
    have m: "k \<in> set (map fst (suspended s))"
      using Some by (metis map_of_eq_None_iff option.distinct(1) set_map)
    obtain t where t: "tasks s k = Some t" "status t = running \<or> status t = cancelled"
      using consistent_suspended [OF c m] by blast
    have d: "distinct (immediates s @ map fst (suspended s))"
      by (rule consistent_distinct [OF c])
    have t0: "tasks s0 k = Some t" using t(1) by (simp add: s0_def)
    obtain t' where e: "tasks (runTask_resume k a' out s0) = (tasks s)(k \<mapsto> t')"
      "taskCounter (runTask_resume k a' out s0) = taskCounter s"
      "immediates (runTask_resume k a' out s0) = immediates s"
      "suspended (runTask_resume k a' out s0) = filter (\<lambda>p. fst p \<noteq> k) (suspended s)"
      using runTask_resume_effect [OF t0, of a' out] by (auto simp add: s0_def)
    have f: "map fst (filter (\<lambda>p. fst p \<noteq> k) (suspended s))
               = filter (\<lambda>x. x \<noteq> k) (map fst (suspended s))"
      by (induction "suspended s") (simp_all add: filter_map comp_def)
    have "consistent (runTask_resume k a' out s0)"
    proof (rule consistent_moved [OF c t(1) e(1) e(2)])
      show "set (immediates (runTask_resume k a' out s0)) \<subseteq> set (immediates s) - {k}"
        using d m by (auto simp add: e(3))
      show "set (map fst (suspended (runTask_resume k a' out s0)))
              \<subseteq> set (map fst (suspended s)) \<union> {k}"
        by (auto simp add: e(4))
      show "status t' = running \<or> status t' = cancelled"
        if "k \<in> set (map fst (suspended (runTask_resume k a' out s0)))"
        using that by (auto simp add: e(4))
      show "distinct (immediates (runTask_resume k a' out s0) @
                      map fst (suspended (runTask_resume k a' out s0)))"
        using d by (auto simp add: e(3) e(4) f)
    qed
    moreover have "tasks (runTask_resume k a' out s0) k0 = Some t0"
      if "tasks s k0 = Some t0" "status t0 = completed \<or> status t0 = failed" for k0 t0
    proof -
      have "k0 \<noteq> k" using that t by auto
      then show ?thesis using that(1) by (simp add: e(1))
    qed
    ultimately show ?thesis unfolding st by blast
  qed
qed

lemma new_server_consistent: "consistent (new_server core lib)"
  by (simp add: consistent_def new_server_def)

text \<open>
  The part of C1 that holds: once a task is \<^verbatim>\<open>completed\<close> or \<^verbatim>\<open>failed\<close>, no sequence of
  requests, scheduled \<^verbatim>\<open>runTask\<close> executions and settled promises changes it again.
\<close>

lemma completed_or_failed_stays:
  assumes "consistent s" and "tasks s k = Some t"
    and "status t = completed \<or> status t = failed"
  shows "consistent (steps as s) \<and> tasks (steps as s) k = Some t"
  using assms
proof (induction as arbitrary: s)
  case Nil
  then show ?case by simp
next
  case (Cons a as)
  have "consistent (step a s)" "tasks (step a s) k = Some t"
    using step_keeps [OF Cons.prems(1), of a] Cons.prems(2,3) by blast+
  then show ?case using Cons.IH [of "step a s"] Cons.prems(3) by simp
qed

end
